theory Spec2Isabelle
  imports Complex_Main "HOL-Library.AList"
begin

section \<open>Errors and arrays\<close>

text \<open>
  The exceptions of the Python source that the model distinguishes. A raise is the
  \<open>Inl\<close> branch of a result of type \<open>error + 'a\<close>.
\<close>

datatype error = IndexError | ValueError | KeyError | AssertionError | TypeError | AxisError

definition bindE :: "error + 'a \<Rightarrow> ('a \<Rightarrow> error + 'b) \<Rightarrow> error + 'b" where
  "bindE m f = (case m of Inl e \<Rightarrow> Inl e | Inr x \<Rightarrow> f x)"

text \<open>
  A numpy array is a dtype tag, a shape and the elements in C (row-major, flatten) order.
  Unsigned label values are \<open>nat\<close>; a cast to an unsigned width wraps modulo \<open>2 ^ bits\<close>.
\<close>

datatype uint_width = W8 | W16 | W32

datatype dtype = Bool | UInt uint_width | Float64

fun bits :: "uint_width \<Rightarrow> nat" where
  "bits W8 = 8"
| "bits W16 = 16"
| "bits W32 = 32"

record 'a ndarray =
  dtype :: dtype
  shape :: "nat list"
  data :: "'a list"

definition wf_array :: "'a ndarray \<Rightarrow> bool" where
  "wf_array a = (length (data a) = prod_list (shape a))"

definition astype_uint :: "uint_width \<Rightarrow> nat ndarray \<Rightarrow> nat ndarray" where
  "astype_uint w a = a\<lparr>dtype := UInt w, data := map (\<lambda>v. v mod 2 ^ bits w) (data a)\<rparr>"

subsection \<open>Broadcasting\<close>

text \<open>
  numpy aligns two shapes at their last axis; two lengths are compatible when they are
  equal or one of them is 1. \<open>bshape_rev\<close> works on the reversed shapes.
\<close>

fun bshape_rev :: "nat list \<Rightarrow> nat list \<Rightarrow> nat list option" where
  "bshape_rev [] ys = Some ys"
| "bshape_rev xs [] = Some xs"
| "bshape_rev (x # xs) (y # ys) =
     (if x = y \<or> y = 1 then map_option ((#) x) (bshape_rev xs ys)
      else if x = 1 then map_option ((#) y) (bshape_rev xs ys)
      else None)"

definition broadcast_shapes :: "nat list \<Rightarrow> nat list \<Rightarrow> nat list option" where
  "broadcast_shapes s1 s2 = map_option rev (bshape_rev (rev s1) (rev s2))"

definition pad_shape :: "nat \<Rightarrow> nat list \<Rightarrow> nat list" where
  "pad_shape r s = replicate (r - length s) 1 @ s"

text \<open>
  The elements of an array of (padded) shape \<open>d # ds\<close> seen at the target shape
  \<open>t # ts\<close>: an axis of equal length is walked block by block, an axis of length 1 is
  repeated.
\<close>

fun broadcast_data :: "nat list \<Rightarrow> nat list \<Rightarrow> 'a list \<Rightarrow> 'a list" where
  "broadcast_data (d # ds) (t # ts) xs =
     (if d = t
      then concat (map (\<lambda>i. broadcast_data ds ts
                              (take (prod_list ds) (drop (i * prod_list ds) xs))) [0..<t])
      else concat (replicate t (broadcast_data ds ts xs)))"
| "broadcast_data [] ts xs = xs"
| "broadcast_data ds [] xs = xs"

definition broadcast_to :: "nat list \<Rightarrow> 'a ndarray \<Rightarrow> 'a list" where
  "broadcast_to s a = broadcast_data (pad_shape (length s) (shape a)) s (data a)"

definition elementwise2 ::
  "dtype \<Rightarrow> ('a \<Rightarrow> 'b \<Rightarrow> 'c) \<Rightarrow> 'a ndarray \<Rightarrow> 'b ndarray \<Rightarrow> error + 'c ndarray" where
  "elementwise2 dt f a b =
     (case broadcast_shapes (shape a) (shape b) of
        None \<Rightarrow> Inl ValueError
      | Some s \<Rightarrow>
          Inr \<lparr>dtype = dt, shape = s,
               data = map2 f (broadcast_to s a) (broadcast_to s b)\<rparr>)"

section \<open>Cytoplasm derivation: \<open>Image._get_cyto\<close>\<close>

definition ne0 :: "nat ndarray \<Rightarrow> bool ndarray" where
  "ne0 a = \<lparr>dtype = Bool, shape = shape a, data = map (\<lambda>v. v \<noteq> 0) (data a)\<rparr>"

definition eq0 :: "bool ndarray \<Rightarrow> bool ndarray" where
  "eq0 a = \<lparr>dtype = Bool, shape = shape a, data = map (\<lambda>b. \<not> b) (data a)\<rparr>"

text \<open>
  \<^verbatim>\<open>overlap = (c_mask != 0) * (n_mask != 0)\<close>,
  \<^verbatim>\<open>cyto_mask_binary = (c_mask != 0) * (overlap == 0)\<close>,
  \<^verbatim>\<open>return c_mask * cyto_mask_binary\<close>. The product of two boolean arrays is their
  conjunction; the product of an unsigned array and a boolean array keeps the unsigned
  dtype and cannot overflow.
\<close>

definition get_cyto :: "nat ndarray \<Rightarrow> nat ndarray \<Rightarrow> error + nat ndarray" where
  "get_cyto n_mask c_mask =
     bindE (elementwise2 Bool (\<and>) (ne0 c_mask) (ne0 n_mask)) (\<lambda>overlap.
     bindE (elementwise2 Bool (\<and>) (ne0 c_mask) (eq0 overlap)) (\<lambda>cyto_mask_binary.
     elementwise2 (dtype c_mask) (\<lambda>v b. v * of_bool b) c_mask cyto_mask_binary))"

section \<open>Bit-width compaction: \<open>Image._compact_mask\<close>\<close>

text \<open>
  \<^verbatim>\<open>mask.max()\<close> raises ValueError on an array without elements.
\<close>

definition compact_mask :: "nat ndarray \<Rightarrow> error + nat ndarray" where
  "compact_mask msk =
     (if data msk = [] then Inl ValueError
      else let m = Max (set (data msk)) in
        if m < 2 ^ 8 then Inr (astype_uint W8 msk)
        else if m < 2 ^ 16 then Inr (astype_uint W16 msk)
        else Inr msk)"

section \<open>Nucleus-to-cell link: \<open>ImageProperties._overlay_mask\<close>\<close>

text \<open>
  \<^verbatim>\<open>a[b]\<close> with a boolean array \<open>b\<close> of the shape of \<open>a\<close> selects, in flatten order,
  the elements of \<open>a\<close> where \<open>b\<close> is true; a boolean index of another shape raises
  IndexError.
\<close>

definition boolean_index :: "'a ndarray \<Rightarrow> bool ndarray \<Rightarrow> error + 'a list" where
  "boolean_index a b =
     (if shape b = shape a then Inr (map fst (filter snd (zip (data a) (data b))))
      else Inl IndexError)"

text \<open>
  The dict comprehension \<^verbatim>\<open>{list_n_masks[i]: list_masks[i] for i in range(...)}\<close>:
  a Python dict keeps a key at the place of its first insertion and overwrites its value
  on every later insertion, which is what \<open>AList.update\<close> does on an association list.
\<close>

definition dict_of_pairs :: "('k \<times> 'v) list \<Rightarrow> ('k \<times> 'v) list" where
  "dict_of_pairs ps = fold (\<lambda>(k, v). AList.update k v) ps []"

datatype overlay = LabelOnly "nat list" | Linked "(nat \<times> nat) list"

definition overlay_mask :: "nat ndarray \<Rightarrow> nat ndarray option \<Rightarrow> error + overlay" where
  "overlay_mask n_mask c_mask_opt =
     (case c_mask_opt of
        None \<Rightarrow> Inr (LabelOnly (data n_mask))
      | Some c_mask \<Rightarrow>
          bindE (elementwise2 Bool (\<and>) (ne0 c_mask) (ne0 n_mask)) (\<lambda>overlap.
          bindE (boolean_index n_mask overlap) (\<lambda>list_n_masks.
          bindE (boolean_index c_mask overlap) (\<lambda>list_masks.
          Inr (Linked (dict_of_pairs (zip list_n_masks list_masks)))))))"

text \<open>
  The overlapping pixels of two same-shaped masks in flatten order, as pairs (nucleus
  label, cell label), and the two candidate tie-breaks the specification speaks of: the
  cell label at the first, respectively the last, overlapping pixel of a nucleus label.
\<close>

definition overlap_pairs :: "nat ndarray \<Rightarrow> nat ndarray \<Rightarrow> (nat \<times> nat) list" where
  "overlap_pairs n_mask c_mask =
     filter (\<lambda>(nv, cv). cv \<noteq> 0 \<and> nv \<noteq> 0) (zip (data n_mask) (data c_mask))"

definition first_overlap_cell :: "nat ndarray \<Rightarrow> nat ndarray \<Rightarrow> nat \<Rightarrow> nat option" where
  "first_overlap_cell n_mask c_mask l =
     map_option snd (find (\<lambda>p. fst p = l) (overlap_pairs n_mask c_mask))"

definition last_overlap_cell :: "nat ndarray \<Rightarrow> nat ndarray \<Rightarrow> nat \<Rightarrow> nat option" where
  "last_overlap_cell n_mask c_mask l =
     map_option snd (find (\<lambda>p. fst p = l) (rev (overlap_pairs n_mask c_mask)))"

section \<open>Post-filtering: \<open>filter_segmentation\<close>\<close>

text \<open>
  \<^verbatim>\<open>skimage.segmentation.clear_border(labels, buffer_size)\<close> is library code. The model
  follows its implementation: it raises ValueError when \<open>buffer_size\<close> is not smaller
  than every axis; the border is the band of the first and the last \<open>buffer_size + 1\<close>
  positions of every axis; the image is relabelled into connected regions of equal
  non-zero value (neighbours differ by at most one in every coordinate); and every region
  with a pixel in the border band is set to 0. Positions are flat (row-major) indices, as
  numpy stores them.
\<close>

fun unravel_index :: "nat list \<Rightarrow> nat \<Rightarrow> nat list" where
  "unravel_index [] i = []"
| "unravel_index (d # ds) i = (i div prod_list ds) # unravel_index ds (i mod prod_list ds)"

definition in_border :: "nat \<Rightarrow> nat list \<Rightarrow> nat list \<Rightarrow> bool" where
  "in_border buffer_size shp idx =
     list_ex (\<lambda>(d, x). x < buffer_size + 1 \<or> d - (buffer_size + 1) \<le> x) (zip shp idx)"

definition neighbours :: "nat list \<Rightarrow> nat list \<Rightarrow> bool" where
  "neighbours p q = (p \<noteq> q \<and> list_all2 (\<lambda>a b. a \<le> b + 1 \<and> b \<le> a + 1) p q)"

definition linked :: "nat ndarray \<Rightarrow> (nat \<times> nat) set" where
  "linked a =
     set [(i, j). i \<leftarrow> [0..<length (data a)], j \<leftarrow> [0..<length (data a)],
            data a ! i \<noteq> 0 \<and> data a ! i = data a ! j \<and>
            neighbours (unravel_index (shape a) i) (unravel_index (shape a) j)]"

definition same_region :: "nat ndarray \<Rightarrow> nat \<Rightarrow> nat \<Rightarrow> bool" where
  "same_region a i j = (i = j \<or> (i, j) \<in> (linked a)\<^sup>+)"

definition touches_border :: "nat \<Rightarrow> nat ndarray \<Rightarrow> nat \<Rightarrow> bool" where
  "touches_border buffer_size a i =
     list_ex (\<lambda>j. same_region a i j \<and>
                  in_border buffer_size (shape a) (unravel_index (shape a) j))
       [0..<length (data a)]"

definition clear_border :: "nat ndarray \<Rightarrow> nat \<Rightarrow> error + nat ndarray" where
  "clear_border labels buffer_size =
     (if list_ex (\<lambda>s. buffer_size \<ge> s) (shape labels) then Inl ValueError
      else Inr (labels\<lparr>data :=
             map (\<lambda>i. if touches_border buffer_size labels i then 0 else data labels ! i)
               [0..<length (data labels)]\<rparr>))"

text \<open>\<^verbatim>\<open>np.bincount(x)\<close>: the number of occurrences of every value from 0 to \<open>max(x)\<close>.\<close>

definition bincount :: "nat list \<Rightarrow> nat list" where
  "bincount xs = (if xs = [] then [] else map (count_list xs) [0..<Suc (Max (set xs))])"

text \<open>
  \<^verbatim>\<open>mask_sizes[0] = 0\<close> raises IndexError on an empty array;
  \<^verbatim>\<open>mask_sizes[cleared]\<close> reads the flag of every pixel's label;
  \<^verbatim>\<open>cells_cleaned * mask\<close> is a product of a boolean array and the input.
\<close>

definition filter_segmentation :: "nat ndarray \<Rightarrow> error + nat ndarray" where
  "filter_segmentation msk =
     bindE (clear_border msk 5) (\<lambda>cleared.
       let sizes = bincount (data cleared);
           mask_sizes = map (\<lambda>s. s > 10) sizes
       in if mask_sizes = [] then Inl IndexError
          else
            let mask_sizes = mask_sizes[0 := False];
                cells_cleaned = \<lparr>dtype = Bool, shape = shape cleared,
                                 data = map (\<lambda>v. mask_sizes ! v) (data cleared)\<rparr>
            in elementwise2 (dtype msk) (\<lambda>b v. of_bool b * v) cells_cleaned msk)"

text \<open>
  A mask of 15 rows and 16 columns in which label 7 has two regions: the corner pixel
  (flat index 0) and a block of 3 by 4 pixels in rows 6 to 8, columns 6 to 9.
\<close>

definition two_region_pixels :: "nat list" where
  "two_region_pixels = [102, 103, 104, 105, 118, 119, 120, 121, 134, 135, 136, 137]"

definition two_region_mask :: "nat ndarray" where
  "two_region_mask =
     \<lparr>dtype = UInt W32, shape = [15, 16],
      data = map (\<lambda>i. if i = 0 \<or> i \<in> set two_region_pixels then 7 else 0) [0..<240]\<rparr>"

text \<open>
  The pixels that survive \<open>filter_segmentation\<close>: not in a region that touches the
  border band, not background, and with more than 10 pixels of their label left after
  the border regions are cleared.
\<close>

definition kept :: "nat ndarray \<Rightarrow> nat \<Rightarrow> bool" where
  "kept msk i = (\<not> touches_border 5 msk i \<and> data msk ! i \<noteq> 0 \<and>
     10 < count_list (map (\<lambda>k. if touches_border 5 msk k then 0 else data msk ! k)
                        [0..<length (data msk)]) (data msk ! i))"

section \<open>Segmentation: \<open>Image._n_segmentation\<close>, \<open>_c_segmentation\<close>, \<open>_segmentation\<close>\<close>

subsection \<open>Array operations the segmentation uses\<close>

text \<open>
  Corrected images are float arrays. Rounding is not modelled: a finite value is a real
  number, and the non-finite results of a division by zero are kept apart.
\<close>

datatype float64 = Fin real | PosInf | NegInf | NaN

definition zeros :: "dtype \<Rightarrow> nat list \<Rightarrow> nat ndarray" where
  "zeros dt shp = \<lparr>dtype = dt, shape = shp, data = replicate (prod_list shp) 0\<rparr>"

text \<open>\<^verbatim>\<open>a[t]\<close>: the block at position \<open>t\<close> of the first axis.\<close>

definition index0 :: "'a ndarray \<Rightarrow> nat \<Rightarrow> error + 'a ndarray" where
  "index0 a t =
     (case shape a of
        [] \<Rightarrow> Inl IndexError
      | d # ds \<Rightarrow>
          if t < d
          then Inr \<lparr>dtype = dtype a, shape = ds,
                    data = take (prod_list ds) (drop (t * prod_list ds) (data a))\<rparr>
          else Inl IndexError)"

text \<open>\<^verbatim>\<open>a[..., k]\<close>: position \<open>k\<close> of the last axis.\<close>

definition index_last :: "'a ndarray \<Rightarrow> nat \<Rightarrow> error + 'a ndarray" where
  "index_last a k =
     (if shape a = [] then Inl IndexError
      else let c = last (shape a) in
        if k < c
        then Inr \<lparr>dtype = dtype a, shape = butlast (shape a),
                  data = map (\<lambda>i. data a ! (i * c + k)) [0..<prod_list (butlast (shape a))]\<rparr>
        else Inl IndexError)"

text \<open>
  \<^verbatim>\<open>segmentation_masks[t] = v\<close> on the uint32 array \<open>segmentation_masks\<close>: the value is
  broadcast to the shape of the block (leading axes of length 1 in excess of the block's
  rank are dropped first) and cast to uint32; a value that does not broadcast to the
  block raises ValueError.
\<close>

fun strip_ones :: "nat \<Rightarrow> nat list \<Rightarrow> nat list" where
  "strip_ones r [] = []"
| "strip_ones r (d # ds) = (if r < length (d # ds) \<and> d = 1 then strip_ones r ds else d # ds)"

definition setitem0 :: "nat ndarray \<Rightarrow> nat \<Rightarrow> nat ndarray \<Rightarrow> error + nat ndarray" where
  "setitem0 a t v =
     (case shape a of
        [] \<Rightarrow> Inl IndexError
      | d # ds \<Rightarrow>
          if d \<le> t then Inl IndexError
          else
            let vs = strip_ones (length ds) (shape v) in
            if broadcast_shapes vs ds = Some ds
            then Inr (a\<lparr>data :=
                   take (t * prod_list ds) (data a)
                   @ map (\<lambda>x. x mod 2 ^ 32) (broadcast_to ds (v\<lparr>shape := vs\<rparr>))
                   @ drop (Suc t * prod_list ds) (data a)\<rparr>)
            else Inl ValueError)"

text \<open>
  \<^verbatim>\<open>np.dstack([a, b])\<close>: both arrays are made at least 3-dimensional (a 2-D array of
  shape (M, N) becomes (M, N, 1)) and joined along the third axis.
\<close>

definition atleast_3d :: "'a ndarray \<Rightarrow> 'a ndarray" where
  "atleast_3d a =
     (case shape a of
        [] \<Rightarrow> a\<lparr>shape := [1, 1, 1]\<rparr>
      | [n] \<Rightarrow> a\<lparr>shape := [1, n, 1]\<rparr>
      | [m, n] \<Rightarrow> a\<lparr>shape := [m, n, 1]\<rparr>
      | _ \<Rightarrow> a)"

definition dstack :: "'a ndarray \<Rightarrow> 'a ndarray \<Rightarrow> error + 'a ndarray" where
  "dstack a b =
     (let sa = shape (atleast_3d a); sb = shape (atleast_3d b) in
      if take 2 sa = take 2 sb \<and> drop 3 sa = drop 3 sb
      then
        let pa = prod_list (drop 2 sa); pb = prod_list (drop 2 sb) in
        Inr \<lparr>dtype = dtype a, shape = take 2 sa @ [sa ! 2 + sb ! 2] @ drop 3 sa,
             data = concat (map (\<lambda>k. take pa (drop (k * pa) (data a))
                                      @ take pb (drop (k * pb) (data b)))
                              [0..<prod_list (take 2 sa)])\<rparr>
      else Inl ValueError)"

text \<open>\<^verbatim>\<open>np.stack([a, b])\<close> and the unpacking \<^verbatim>\<open>x, y = arr\<close> along the first axis.\<close>

definition stack2 :: "'a ndarray \<Rightarrow> 'a ndarray \<Rightarrow> error + 'a ndarray" where
  "stack2 a b =
     (if shape a = shape b
      then Inr \<lparr>dtype = dtype a, shape = 2 # shape a, data = data a @ data b\<rparr>
      else Inl ValueError)"

definition unpack2 :: "'a ndarray \<Rightarrow> error + ('a ndarray \<times> 'a ndarray)" where
  "unpack2 a =
     (case shape a of
        [] \<Rightarrow> Inl TypeError
      | d # ds \<Rightarrow>
          if d = 2 then bindE (index0 a 0) (\<lambda>x. bindE (index0 a 1) (\<lambda>y. Inr (x, y)))
          else Inl ValueError)"

subsection \<open>Strings\<close>

definition upper_char :: "char \<Rightarrow> char" where
  "upper_char c =
     (if 97 \<le> (of_char c :: nat) \<and> (of_char c :: nat) \<le> 122
      then char_of ((of_char c :: nat) - 32) else c)"

definition upper :: "string \<Rightarrow> string" where
  "upper s = map upper_char s"

fun starts_with :: "'a list \<Rightarrow> 'a list \<Rightarrow> bool" where
  "starts_with [] ys = True"
| "starts_with (x # xs) [] = False"
| "starts_with (x # xs) (y # ys) = (x = y \<and> starts_with xs ys)"

text \<open>\<open>contains_sub s t\<close> is Python's \<^verbatim>\<open>s in t\<close> on strings.\<close>

fun contains_sub :: "'a list \<Rightarrow> 'a list \<Rightarrow> bool" where
  "contains_sub s [] = (s = [])"
| "contains_sub s (c # cs) = (starts_with s (c # cs) \<or> contains_sub s cs)"

function string_of_nat :: "nat \<Rightarrow> string" where
  "string_of_nat n =
     (if n < 10 then [''0123456789'' ! n]
      else string_of_nat (n div 10) @ [''0123456789'' ! (n mod 10)])"
  by pat_completeness auto
termination
  by (relation "measure id") auto

declare string_of_nat.simps [simp del]

subsection \<open>The collaborators and the image object\<close>

text \<open>
  The external collaborators are parameters: the Cellpose model
  (\<open>model_eval model_type image channels diameter\<close> returns the label array of
  \<^verbatim>\<open>CellposeModel(model_type=...).eval(image, channels=..., diameter=..., normalize=False)\<close>
  or the exception it raises), the percentile stretch inside \<open>scale_img\<close>, the table
  \<^verbatim>\<open>default_config.MODEL_DICT\<close>, the children of the dataset (name and id) and
  \<^verbatim>\<open>get_image\<close>. Every call of the model and every upload is recorded in an event log.
\<close>

record env =
  model_eval :: "string \<Rightarrow> float64 ndarray \<Rightarrow> nat \<times> nat \<Rightarrow> nat option \<Rightarrow> error + nat ndarray"
  stretch :: "float64 list \<Rightarrow> float64 \<Rightarrow> float64"
  model_dict :: "string \<rightharpoonup> string"
  children :: "(string \<times> nat) list"
  get_image :: "nat \<Rightarrow> error + nat ndarray"

record image =
  image_id :: nat
  channels :: "(string \<times> nat) list"
  cell_line :: string
  img_dict :: "string \<rightharpoonup> float64 ndarray"

datatype event =
  ModelEval string "float64 ndarray"
| UploadMasks nat "nat ndarray" "nat ndarray option"

text \<open>
  \<open>scale_img\<close>: \<^verbatim>\<open>exposure.rescale_intensity(img, in_range=percentiles)\<close> maps every
  pixel through a stretch that is fixed by the percentiles of the whole image.
\<close>

definition scale_img :: "(float64 list \<Rightarrow> float64 \<Rightarrow> float64) \<Rightarrow> float64 ndarray \<Rightarrow> float64 ndarray" where
  "scale_img str img = img\<lparr>data := map (str (data img)) (data img)\<rparr>"

subsection \<open>Nucleus segmentation\<close>

definition nuc_diameter_of :: "string \<Rightarrow> nat" where
  "nuc_diameter_of line =
     (if contains_sub ''40X'' (upper line) then 100
      else if contains_sub ''20X'' (upper line) then 25
      else 10)"

text \<open>
  One pass of the loop over the timepoints. An IndexError of the model is replaced by
  \<^verbatim>\<open>np.zeros(scaled_img_t.shape, dtype=np.uint8)\<close>; any other exception propagates.
\<close>

fun n_seg_loop ::
  "env \<Rightarrow> string \<Rightarrow> nat \<Rightarrow> float64 ndarray \<Rightarrow> nat list \<Rightarrow> nat ndarray \<times> event list
     \<Rightarrow> error + (nat ndarray \<times> event list)" where
  "n_seg_loop e mt diam img_array [] st = Inr st"
| "n_seg_loop e mt diam img_array (t # ts) st =
     bindE (index0 img_array t) (\<lambda>img_t.
       let scaled_img_t = scale_img (stretch e) img_t in
       bindE (case model_eval e mt scaled_img_t (0, 0) (Some diam) of
                Inl IndexError \<Rightarrow> Inr (zeros (UInt W8) (shape scaled_img_t))
              | Inl err \<Rightarrow> Inl err
              | Inr m \<Rightarrow> Inr m) (\<lambda>n_mask_array.
       bindE (filter_segmentation n_mask_array) (\<lambda>filtered.
       bindE (setitem0 (fst st) t filtered) (\<lambda>segmentation_masks.
         n_seg_loop e mt diam img_array ts
           (segmentation_masks, snd st @ [ModelEval mt scaled_img_t])))))"

definition n_segmentation :: "env \<Rightarrow> image \<Rightarrow> event list \<Rightarrow> error + (nat ndarray \<times> event list)" where
  "n_segmentation e im evs =
     (case model_dict e ''nuclei'' of
        None \<Rightarrow> Inl KeyError
      | Some mt \<Rightarrow>
          (case img_dict im ''DAPI'' of
             None \<Rightarrow> Inl KeyError
           | Some img_array \<Rightarrow>
               (case shape img_array of
                  [] \<Rightarrow> Inl IndexError
                | d # ds \<Rightarrow>
                    n_seg_loop e mt (nuc_diameter_of (cell_line im)) img_array [0..<d]
                      (zeros (UInt W32) (shape img_array), evs))))"

subsection \<open>Cell segmentation\<close>

definition get_models :: "env \<Rightarrow> image \<Rightarrow> error + string" where
  "get_models e im =
     (let line = upper (filter (\<lambda>c. c \<noteq> CHR '' '') (cell_line im)) in
      if contains_sub ''40X'' line then Inr ''40x_Tub_H2B''
      else if contains_sub ''20X'' line then Inr ''cyto''
      else (case model_dict e line of
              Some m \<Rightarrow> Inr m
            | None \<Rightarrow> (case model_dict e ''U2OS'' of Some m \<Rightarrow> Inr m | None \<Rightarrow> Inl KeyError)))"

text \<open>
  One pass of the loop over the timepoints. An IndexError of the model is replaced by
  \<^verbatim>\<open>np.zeros_like(comb_image_t).astype(np.uint8)\<close>, an array of the shape of the
  two-channel composite.
\<close>

fun c_seg_loop ::
  "env \<Rightarrow> string \<Rightarrow> float64 ndarray \<Rightarrow> float64 ndarray \<Rightarrow> nat list \<Rightarrow> nat ndarray \<times> event list
     \<Rightarrow> error + (nat ndarray \<times> event list)" where
  "c_seg_loop e mt dapi_array tub_array [] st = Inr st"
| "c_seg_loop e mt dapi_array tub_array (t # ts) st =
     bindE (index0 dapi_array t) (\<lambda>dapi_t.
     bindE (index0 tub_array t) (\<lambda>tub_t.
     bindE (dstack dapi_t tub_t) (\<lambda>stacked.
       let comb_image_t = scale_img (stretch e) stacked in
       bindE (case model_eval e mt comb_image_t (2, 1) None of
                Inl IndexError \<Rightarrow> Inr (zeros (UInt W8) (shape comb_image_t))
              | Inl err \<Rightarrow> Inl err
              | Inr m \<Rightarrow> Inr m) (\<lambda>c_masks_array.
       bindE (filter_segmentation c_masks_array) (\<lambda>filtered.
       bindE (setitem0 (fst st) t filtered) (\<lambda>segmentation_masks.
         c_seg_loop e mt dapi_array tub_array ts
           (segmentation_masks, snd st @ [ModelEval mt comb_image_t])))))))"

definition c_segmentation :: "env \<Rightarrow> image \<Rightarrow> event list \<Rightarrow> error + (nat ndarray \<times> event list)" where
  "c_segmentation e im evs =
     bindE (get_models e im) (\<lambda>mt.
       case img_dict im ''DAPI'' of
         None \<Rightarrow> Inl KeyError
       | Some dapi_array \<Rightarrow>
           (case img_dict im ''Tub'' of
              None \<Rightarrow> Inl KeyError
            | Some tub_array \<Rightarrow>
                (case (shape dapi_array, shape tub_array) of
                   (d # ds, d' # ds') \<Rightarrow>
                     if d = d'
                     then c_seg_loop e mt dapi_array tub_array [0..<d]
                            (zeros (UInt W32) (shape dapi_array), evs)
                     else Inl AssertionError
                 | _ \<Rightarrow> Inl IndexError)))"

subsection \<open>Mask acquisition\<close>

text \<open>
  The first child of the dataset named \<^verbatim>\<open>"{image_id}_segmentation"\<close> holds stored
  masks; otherwise the masks are computed, compacted and uploaded.
\<close>

definition segmentation ::
  "env \<Rightarrow> image \<Rightarrow> event list
     \<Rightarrow> error + ((nat ndarray \<times> nat ndarray option \<times> nat ndarray option) \<times> event list)" where
  "segmentation e im evs =
     (let image_name = string_of_nat (image_id im) @ ''_segmentation'' in
      case find (\<lambda>child. fst child = image_name) (children e) of
        Some child \<Rightarrow>
          bindE (get_image e (snd child)) (\<lambda>masks.
            if ''Tub'' \<in> fst ` set (channels im)
            then
              bindE (index_last masks 0) (\<lambda>n_mask.
              bindE (index_last masks 1) (\<lambda>c_mask.
              bindE (get_cyto n_mask c_mask) (\<lambda>cyto_mask.
                Inr ((n_mask, Some c_mask, Some cyto_mask), evs))))
            else
              bindE (index_last masks 0) (\<lambda>n_mask.
                Inr ((n_mask, None, None), evs)))
      | None \<Rightarrow>
          bindE (n_segmentation e im evs) (\<lambda>(n_mask, evs1).
            if ''Tub'' \<in> fst ` set (channels im)
            then
              bindE (c_segmentation e im evs1) (\<lambda>(c_mask, evs2).
              bindE (stack2 n_mask c_mask) (\<lambda>stacked.
              bindE (compact_mask stacked) (\<lambda>compacted.
              bindE (unpack2 compacted) (\<lambda>(n_mask', c_mask').
              bindE (get_cyto n_mask' c_mask') (\<lambda>cyto_mask.
                Inr ((n_mask', Some c_mask', Some cyto_mask),
                     evs2 @ [UploadMasks (image_id im) n_mask' (Some c_mask')]))))))
            else
              bindE (compact_mask n_mask) (\<lambda>n_mask'.
                Inr ((n_mask', None, None),
                     evs1 @ [UploadMasks (image_id im) n_mask' None]))))"

subsection \<open>Example inputs\<close>

text \<open>
  A model that raises IndexError on every image, one timepoint of 6 by 6 pixels, an image
  with a nucleus channel only and one with a \<open>Tub\<close> channel as well; and a dataset that
  already holds the masks of image 7.
\<close>

definition failing_env :: env where
  "failing_env =
     \<lparr>model_eval = (\<lambda>mt img ch diam. Inl IndexError),
      stretch = (\<lambda>xs x. x),
      model_dict = [''nuclei'' \<mapsto> ''nuclei'', ''U2OS'' \<mapsto> ''cyto''],
      children = [],
      get_image = (\<lambda>i. Inl KeyError)\<rparr>"

definition flat_image :: "float64 ndarray" where
  "flat_image = \<lparr>dtype = Float64, shape = [1, 6, 6], data = replicate 36 (Fin 1)\<rparr>"

definition dapi_image :: image where
  "dapi_image =
     \<lparr>image_id = 7, channels = [(''DAPI'', 0)], cell_line = ''U2OS'',
      img_dict = [''DAPI'' \<mapsto> flat_image]\<rparr>"

definition tub_image :: image where
  "tub_image =
     \<lparr>image_id = 7, channels = [(''DAPI'', 0), (''Tub'', 1)], cell_line = ''U2OS'',
      img_dict = [''DAPI'' \<mapsto> flat_image, ''Tub'' \<mapsto> flat_image]\<rparr>"

definition stored_masks :: "nat ndarray" where
  "stored_masks = \<lparr>dtype = UInt W8, shape = [1, 1, 1, 2, 2], data = [1, 5, 0, 5]\<rparr>"

definition stored_env :: env where
  "stored_env =
     \<lparr>model_eval = (\<lambda>mt img ch diam. Inl IndexError),
      stretch = (\<lambda>xs x. x),
      model_dict = Map.empty,
      children = [(''other'', 2), (''7_segmentation'', 3)],
      get_image = (\<lambda>i. if i = 3 then Inr stored_masks else Inl KeyError)\<rparr>"

section \<open>Flatfield correction: \<open>Image._get_img_dict\<close>\<close>

text \<open>
  numpy's true division of finite values: a zero divisor gives an infinity or NaN, not an
  exception.
\<close>

definition fdiv :: "real \<Rightarrow> real \<Rightarrow> float64" where
  "fdiv x y =
     (if y = 0 then (if x = 0 then NaN else if 0 < x then PosInf else NegInf)
      else Fin (x / y))"

text \<open>
  \<^verbatim>\<open>np.squeeze(img, axis=1)\<close> removes the second axis when its length is 1, raises
  ValueError when it is longer and AxisError when the array has no second axis.
\<close>

definition squeeze_axis1 :: "'a ndarray \<Rightarrow> error + 'a ndarray" where
  "squeeze_axis1 a =
     (case shape a of
        d0 # d1 # ds \<Rightarrow> if d1 = 1 then Inr (a\<lparr>shape := d0 # ds\<rparr>) else Inl ValueError
      | _ \<Rightarrow> Inl AxisError)"

text \<open>
  The body of the loop for one channel, after the channel is selected:
  \<^verbatim>\<open>img = raw / field; img = np.squeeze(img, axis=1)\<close>. The division broadcasts.
\<close>

definition flatfield_correct :: "real ndarray \<Rightarrow> real ndarray \<Rightarrow> error + float64 ndarray" where
  "flatfield_correct raw field = bindE (elementwise2 Float64 fdiv raw field) squeeze_axis1"

text \<open>
  The loop over \<^verbatim>\<open>self.channels.items()\<close>. \<open>array\<close> is the pixel array of the image
  (TZYXC), \<open>flatfield_dict\<close> the correction field of every channel.
\<close>

fun get_img_dict ::
  "real ndarray \<Rightarrow> (string \<rightharpoonup> real ndarray) \<Rightarrow> (string \<times> nat) list
     \<Rightarrow> (string \<rightharpoonup> float64 ndarray) \<Rightarrow> error + (string \<rightharpoonup> float64 ndarray)" where
  "get_img_dict array flatfield_dict [] acc = Inr acc"
| "get_img_dict array flatfield_dict ((ch, idx) # rest) acc =
     bindE (index_last array idx) (\<lambda>raw.
       case flatfield_dict ch of
         None \<Rightarrow> Inl KeyError
       | Some field \<Rightarrow>
           bindE (flatfield_correct raw field) (\<lambda>img.
             get_img_dict array flatfield_dict rest (acc(ch \<mapsto> img))))"

section \<open>Table reconciliation: \<open>ImageProperties._outer_merge\<close>\<close>

text \<open>
  A pandas DataFrame is a list of named, typed columns and a list of rows. A cell is a
  number or missing (\<open>None\<close> is NaN/NA); only the distinction between integer and
  floating columns matters to \<open>_outer_merge\<close>. An integer column holds no missing cell.
\<close>

datatype col_dtype = IntCol | FloatCol

type_synonym cell = "real option"

record table =
  columns :: "(string \<times> col_dtype) list"
  rows :: "cell list list"

definition wf_table :: "table \<Rightarrow> bool" where
  "wf_table t =
     (distinct (map fst (columns t)) \<and>
      (\<forall>r \<in> set (rows t). length r = length (columns t) \<and>
         (\<forall>i < length r. snd (columns t ! i) = IntCol \<longrightarrow> r ! i \<noteq> None)))"

definition no_nulls :: "table \<Rightarrow> bool" where
  "no_nulls t = (\<forall>r \<in> set (rows t). None \<notin> set r)"

fun index_of :: "'a \<Rightarrow> 'a list \<Rightarrow> nat option" where
  "index_of x [] = None"
| "index_of x (y # ys) = (if x = y then Some 0 else map_option Suc (index_of x ys))"

definition col_dtype_of :: "table \<Rightarrow> string \<Rightarrow> col_dtype option" where
  "col_dtype_of t c = map_of (columns t) c"

text \<open>The positions of the join keys in a table; a missing key column is a KeyError.\<close>

fun key_positions :: "string list \<Rightarrow> string list \<Rightarrow> nat list option" where
  "key_positions names [] = Some []"
| "key_positions names (k # ks) =
     (case index_of k names of
        None \<Rightarrow> None
      | Some i \<Rightarrow> map_option ((#) i) (key_positions names ks))"

definition key_of :: "nat list \<Rightarrow> 'a list \<Rightarrow> 'a list" where
  "key_of ks r = map (\<lambda>k. r ! k) ks"

definition nonkey :: "nat list \<Rightarrow> 'a list \<Rightarrow> 'a list" where
  "nonkey ks r = map (\<lambda>i. r ! i) (filter (\<lambda>i. i \<notin> set ks) [0..<length r])"

text \<open>
  \<^verbatim>\<open>pd.merge(df1, df2, how="outer", on=on)\<close>, library code, modelled from its
  documented behaviour. The result has the columns of \<open>df1\<close> followed by the columns of
  \<open>df2\<close> that are no join keys; a name that both tables use outside the join keys gets
  the suffix \<open>_x\<close> on the left and \<open>_y\<close> on the right. Its rows are every pair of a left
  and a right row with equal keys, every left row without partner (missing cells on the
  right) and every right row without partner (missing cells on the left, the keys taken
  from the right row). A column that receives missing cells is no longer an integer
  column. pandas sorts the result by key; the order of the rows is not modelled. An empty
  list of join columns raises IndexError, a join column that a table lacks KeyError.
\<close>

definition right_only_row :: "nat list \<Rightarrow> nat list \<Rightarrow> nat \<Rightarrow> cell list \<Rightarrow> cell list" where
  "right_only_row k1 k2 width r =
     map (\<lambda>i. case index_of i k1 of None \<Rightarrow> None | Some j \<Rightarrow> r ! (k2 ! j)) [0..<width]
     @ nonkey k2 r"

definition pd_merge_outer :: "table \<Rightarrow> table \<Rightarrow> string list \<Rightarrow> error + table" where
  "pd_merge_outer df1 df2 on =
     (if on = [] then Inl IndexError
      else
      case (key_positions (map fst (columns df1)) on, key_positions (map fst (columns df2)) on) of
        (Some k1, Some k2) \<Rightarrow>
          let rest1 = nonkey k1 (columns df1);
              rest2 = nonkey k2 (columns df2);
              left_only = filter (\<lambda>l. key_of k1 l \<notin> key_of k2 ` set (rows df2)) (rows df1);
              right_only = filter (\<lambda>r. key_of k2 r \<notin> key_of k1 ` set (rows df1)) (rows df2);
              matched = concat (map (\<lambda>l. map (\<lambda>r. l @ nonkey k2 r)
                                            (filter (\<lambda>r. key_of k2 r = key_of k1 l) (rows df2)))
                                  (rows df1));
              left_cols = map (\<lambda>(c, t).
                  if c \<in> set on
                  then (c, if t = IntCol \<and> col_dtype_of df2 c = Some IntCol then IntCol else FloatCol)
                  else (if c \<in> fst ` set rest2 then c @ ''_x'' else c,
                        if right_only \<noteq> [] then FloatCol else t)) (columns df1);
              right_cols = map (\<lambda>(c, t).
                  (if c \<in> fst ` set rest1 then c @ ''_y'' else c,
                   if left_only \<noteq> [] then FloatCol else t)) rest2
          in Inr \<lparr>columns = left_cols @ right_cols,
                  rows = matched
                    @ map (\<lambda>l. l @ replicate (length rest2) None) left_only
                    @ map (right_only_row k1 k2 (length (columns df1))) right_only\<rparr>
      | _ \<Rightarrow> Inl KeyError)"

text \<open>\<^verbatim>\<open>.dropna(axis=0, how="any")\<close>\<close>

definition dropna :: "table \<Rightarrow> table" where
  "dropna t = t\<lparr>rows := filter (\<lambda>r. None \<notin> set r) (rows t)\<rparr>"

text \<open>
  \<^verbatim>\<open>df[c] = df[c].astype(int_dtype)\<close>: the values are truncated towards zero; a missing
  cell cannot be converted.
\<close>

definition trunc_real :: "real \<Rightarrow> real" where
  "trunc_real v = (if 0 \<le> v then of_int \<lfloor>v\<rfloor> else of_int \<lceil>v\<rceil>)"

definition astype_int :: "nat \<Rightarrow> table \<Rightarrow> error + table" where
  "astype_int i t =
     (if list_ex (\<lambda>r. r ! i = None) (rows t) then Inl ValueError
      else Inr \<lparr>columns = (columns t)[i := (fst (columns t ! i), IntCol)],
                rows = map (\<lambda>r. r[i := map_option trunc_real (r ! i)]) (rows t)\<rparr>)"

text \<open>
  The loop \<^verbatim>\<open>for c in src.columns: if is_integer_dtype(src[c].dtype) and not
  is_integer_dtype(df[c].dtype): df[c] = df[c].astype(src[c].dtype)\<close>. \<^verbatim>\<open>df[c]\<close> is
  only evaluated for an integer column of the source and raises KeyError when the merged
  table has no column of that name.
\<close>

fun restore_ints :: "(string \<times> col_dtype) list \<Rightarrow> table \<Rightarrow> error + table" where
  "restore_ints [] df = Inr df"
| "restore_ints ((c, t) # cs) df =
     (if t = IntCol
      then (case index_of c (map fst (columns df)) of
              None \<Rightarrow> Inl KeyError
            | Some i \<Rightarrow>
                if snd (columns df ! i) \<noteq> IntCol
                then bindE (astype_int i df) (restore_ints cs)
                else restore_ints cs df)
      else restore_ints cs df)"

definition outer_merge :: "table \<Rightarrow> table \<Rightarrow> string list \<Rightarrow> error + table" where
  "outer_merge df1 df2 on =
     bindE (pd_merge_outer df1 df2 on) (\<lambda>merged.
     bindE (restore_ints (columns df1) (dropna merged)) (\<lambda>df.
       restore_ints (columns df2) df))"

text \<open>The values of a column, and the keys of a table under a list of join columns.\<close>

definition column_values :: "table \<Rightarrow> string \<Rightarrow> cell set" where
  "column_values t c =
     (case index_of c (map fst (columns t)) of
        None \<Rightarrow> {}
      | Some i \<Rightarrow> (\<lambda>r. r ! i) ` set (rows t))"

definition table_keys :: "table \<Rightarrow> string list \<Rightarrow> cell list list" where
  "table_keys t on =
     (case key_positions (map fst (columns t)) on of
        None \<Rightarrow> []
      | Some ks \<Rightarrow> map (key_of ks) (rows t))"

definition value_columns :: "table \<Rightarrow> string list \<Rightarrow> string list" where
  "value_columns t on = filter (\<lambda>c. c \<notin> set on) (map fst (columns t))"

text \<open>Every row has one cell per column.\<close>

definition rect :: "table \<Rightarrow> bool" where
  "rect t = (\<forall>r \<in> set (rows t). length r = length (columns t))"

text \<open>
  Example tables: cell and cytoplasm measurements of the same two objects, cytoplasm
  measurements of two other objects, and cell measurements with a missing intensity.
\<close>

definition cell_table :: table where
  "cell_table =
     \<lparr>columns = [(''label'', IntCol), (''timepoint'', IntCol), (''area_cell'', IntCol)],
      rows = [[Some 1, Some 0, Some 20], [Some 2, Some 0, Some 30]]\<rparr>"

definition cyto_table :: table where
  "cyto_table =
     \<lparr>columns = [(''label'', IntCol), (''timepoint'', IntCol), (''area_cyto'', IntCol)],
      rows = [[Some 1, Some 0, Some 15], [Some 2, Some 0, Some 25]]\<rparr>"

definition other_cyto_table :: table where
  "other_cyto_table =
     \<lparr>columns = [(''label'', IntCol), (''timepoint'', IntCol), (''area_cyto'', IntCol)],
      rows = [[Some 3, Some 0, Some 15], [Some 4, Some 0, Some 25]]\<rparr>"

definition nan_cell_table :: table where
  "nan_cell_table =
     \<lparr>columns = [(''label'', IntCol), (''timepoint'', IntCol), (''mean_cell'', FloatCol)],
      rows = [[Some 1, Some 0, Some 7], [Some 2, Some 0, None]]\<rparr>"

section \<open>Properties\<close>

subsection \<open>Broadcasting an array to its own shape\<close>

lemma bshape_rev_same: "bshape_rev s s = Some s"
  by (induction s) auto

lemma broadcast_shapes_same: "broadcast_shapes s s = Some s"
  by (simp add: broadcast_shapes_def bshape_rev_same)

lemma concat_blocks:
  "concat (map (\<lambda>i. take k (drop (i * k) xs)) [0..<n]) = take (n * k) xs"
proof (induction n)
  case 0
  then show ?case by simp
next
  case (Suc n)
  have "Suc n * k = n * k + k" by simp
  then have "take (Suc n * k) xs = take (n * k) xs @ take k (drop (n * k) xs)"
    by (simp only: take_add)
  with Suc show ?case by simp
qed

lemma broadcast_data_same:
  "length xs = prod_list s \<Longrightarrow> broadcast_data s s xs = xs"
proof (induction s arbitrary: xs)
  case Nil
  then show ?case by simp
next
  case (Cons d ds)
  have blk: "broadcast_data ds ds (take (prod_list ds) (drop (i * prod_list ds) xs))
          = take (prod_list ds) (drop (i * prod_list ds) xs)" if "i < d" for i
  proof -
    have "(i + 1) * prod_list ds \<le> d * prod_list ds"
      using that by (intro mult_le_mono1) simp
    then have "length (take (prod_list ds) (drop (i * prod_list ds) xs)) = prod_list ds"
      using Cons.prems by simp
    then show ?thesis
      by (rule Cons.IH)
  qed
  then have "map (\<lambda>i. broadcast_data ds ds (take (prod_list ds) (drop (i * prod_list ds) xs))) [0..<d]
      = map (\<lambda>i. take (prod_list ds) (drop (i * prod_list ds) xs)) [0..<d]"
    by simp
  then have "broadcast_data (d # ds) (d # ds) xs = take (d * prod_list ds) xs"
    by (simp only: broadcast_data.simps concat_blocks refl if_True)
  then show ?case
    using Cons.prems by simp
qed

lemma broadcast_to_same:
  "wf_array a \<Longrightarrow> broadcast_to (shape a) a = data a"
  by (simp add: broadcast_to_def pad_shape_def wf_array_def broadcast_data_same)

lemma elementwise2_same:
  assumes "wf_array a" "wf_array b" "shape a = shape b"
  shows "elementwise2 dt f a b = Inr \<lparr>dtype = dt, shape = shape a, data = map2 f (data a) (data b)\<rparr>"
  using assms broadcast_to_same [of a] broadcast_to_same [of b]
  by (simp add: elementwise2_def broadcast_shapes_same)

subsection \<open>Cytoplasm derivation\<close>

lemma get_cyto_same:
  assumes "wf_array n" "wf_array c" "shape n = shape c"
  shows "get_cyto n c =
     Inr \<lparr>dtype = dtype c, shape = shape c,
          data = map2 (\<lambda>nv cv. if cv \<noteq> 0 \<and> nv = 0 then cv else 0) (data n) (data c)\<rparr>"
proof -
  have len: "length (data n) = length (data c)"
    using assms by (simp add: wf_array_def)
  have wn: "wf_array (ne0 n)" and wc: "wf_array (ne0 c)"
    using assms by (simp_all add: wf_array_def ne0_def)
  have s: "shape (ne0 c) = shape (ne0 n)"
    using assms by (simp add: ne0_def)
  define ov where "ov = \<lparr>dtype = Bool, shape = shape (ne0 c),
      data = map2 (\<and>) (data (ne0 c)) (data (ne0 n))\<rparr>"
  have e1: "elementwise2 Bool (\<and>) (ne0 c) (ne0 n) = Inr ov"
    unfolding ov_def by (rule elementwise2_same [OF wc wn s])
  have wo: "wf_array (eq0 ov)"
    using assms len by (simp add: wf_array_def eq0_def ov_def ne0_def)
  have so: "shape (ne0 c) = shape (eq0 ov)"
    by (simp add: eq0_def ov_def)
  define bi where "bi = \<lparr>dtype = Bool, shape = shape (ne0 c),
      data = map2 (\<and>) (data (ne0 c)) (data (eq0 ov))\<rparr>"
  have e2: "elementwise2 Bool (\<and>) (ne0 c) (eq0 ov) = Inr bi"
    unfolding bi_def by (rule elementwise2_same [OF wc wo so])
  have wb: "wf_array bi"
    using assms len by (simp add: wf_array_def bi_def eq0_def ov_def ne0_def)
  have sb: "shape c = shape bi"
    by (simp add: bi_def ne0_def)
  have e3: "elementwise2 (dtype c) (\<lambda>v b. v * of_bool b) c bi =
      Inr \<lparr>dtype = dtype c, shape = shape c, data = map2 (\<lambda>v b. v * of_bool b) (data c) (data bi)\<rparr>"
    by (rule elementwise2_same [OF assms(2) wb sb])
  have d: "map2 (\<lambda>v b. v * of_bool b) (data c) (data bi)
      = map2 (\<lambda>nv cv. if cv \<noteq> 0 \<and> nv = 0 then cv else 0) (data n) (data c)"
    using len by (intro nth_equalityI) (auto simp: bi_def eq0_def ov_def ne0_def)
  show ?thesis
    by (simp add: get_cyto_def bindE_def e1 e2 e3 d)
qed

text \<open>
  C4. For same-shaped label masks the cytoplasm mask is, pixel by pixel, the cell label
  where the cell mask is non-zero and the nucleus mask is zero, and 0 elsewhere; it has
  the shape and dtype of the cell mask; and when no pixel is a cell pixel outside every
  nucleus the result is the all-zero mask, not an error.
\<close>

theorem get_cyto_pointwise:
  assumes "wf_array n" "wf_array c" "shape n = shape c"
  shows "\<exists>r. get_cyto n c = Inr r \<and> shape r = shape c \<and> dtype r = dtype c \<and>
           length (data r) = length (data c) \<and>
           (\<forall>i < length (data c).
              data r ! i = (if data c ! i \<noteq> 0 \<and> data n ! i = 0 then data c ! i else 0)) \<and>
           ((\<forall>i < length (data c). \<not> (data c ! i \<noteq> 0 \<and> data n ! i = 0))
              \<longrightarrow> data r = replicate (length (data c)) 0)"
proof -
  have len: "length (data n) = length (data c)"
    using assms by (simp add: wf_array_def)
  let ?r = "\<lparr>dtype = dtype c, shape = shape c,
          data = map2 (\<lambda>nv cv. if cv \<noteq> 0 \<and> nv = 0 then cv else 0) (data n) (data c)\<rparr>"
  have "get_cyto n c = Inr ?r"
    by (rule get_cyto_same [OF assms])
  moreover have "length (data ?r) = length (data c)"
    using len by simp
  moreover have "\<forall>i < length (data c).
      data ?r ! i = (if data c ! i \<noteq> 0 \<and> data n ! i = 0 then data c ! i else 0)"
    using len by simp
  moreover have "(\<forall>i < length (data c). \<not> (data c ! i \<noteq> 0 \<and> data n ! i = 0))
      \<longrightarrow> data ?r = replicate (length (data c)) 0"
    using len by (auto intro!: nth_equalityI)
  ultimately show ?thesis
    by (intro exI [of _ ?r]) simp
qed

theorem get_cyto_pointwise_witness:
  "get_cyto \<lparr>dtype = UInt W8, shape = [2, 2], data = [1, 0, 0, 0]\<rparr>
            \<lparr>dtype = UInt W8, shape = [2, 2], data = [5, 5, 0, 7]\<rparr>
     = Inr \<lparr>dtype = UInt W8, shape = [2, 2], data = [0, 5, 0, 7]\<rparr>"
proof -
  let ?n = "\<lparr>dtype = UInt W8, shape = [2, 2], data = [1, 0, 0, 0::nat]\<rparr>"
  let ?c = "\<lparr>dtype = UInt W8, shape = [2, 2], data = [5, 5, 0, 7::nat]\<rparr>"
  have h: "wf_array ?n" "wf_array ?c" "shape ?n = shape ?c"
    by (simp_all add: wf_array_def)
  obtain r where r: "get_cyto ?n ?c = Inr r" "shape r = shape ?c" "dtype r = dtype ?c"
      "length (data r) = length (data ?c)"
      "\<forall>i < length (data ?c).
         data r ! i = (if data ?c ! i \<noteq> 0 \<and> data ?n ! i = 0 then data ?c ! i else 0)"
    using get_cyto_pointwise [OF h] by blast
  have "data r ! 0 = 0" "data r ! 1 = 5" "data r ! 2 = 0" "data r ! 3 = 7"
    using r(5) by (simp_all add: nth_Cons')
  moreover have "length (data r) = 4"
    using r(4) by simp
  ultimately have "data r = [0, 5, 0, 7]"
    by (intro nth_equalityI) (auto simp: nth_Cons' less_Suc_eq numeral_eq_Suc)
  then have "r = \<lparr>dtype = UInt W8, shape = [2, 2], data = [0, 5, 0, 7]\<rparr>"
    using r(2,3) by (cases r) simp
  then show ?thesis
    using r(1) by simp
qed

text \<open>
  C5. Deriving the cytoplasm mask and deriving it again with the first result in the
  place of the cell mask gives the first result: the derivation is idempotent in its
  cell-mask argument for a fixed nucleus mask.
\<close>

theorem get_cyto_idempotent:
  assumes "wf_array n" "wf_array c" "shape n = shape c"
  shows "\<exists>y. get_cyto n c = Inr y \<and> get_cyto n y = Inr y"
proof -
  have len: "length (data n) = length (data c)"
    using assms by (simp add: wf_array_def)
  define y where "y = \<lparr>dtype = dtype c, shape = shape c,
          data = map2 (\<lambda>nv cv. if cv \<noteq> 0 \<and> nv = 0 then cv else 0) (data n) (data c)\<rparr>"
  have first: "get_cyto n c = Inr y"
    unfolding y_def by (rule get_cyto_same [OF assms])
  have wy: "wf_array y"
    using assms len by (simp add: wf_array_def y_def)
  have sy: "shape n = shape y"
    using assms by (simp add: y_def)
  have "get_cyto n y = Inr \<lparr>dtype = dtype y, shape = shape y,
          data = map2 (\<lambda>nv cv. if cv \<noteq> 0 \<and> nv = 0 then cv else 0) (data n) (data y)\<rparr>"
    by (rule get_cyto_same [OF assms(1) wy sy])
  moreover have "map2 (\<lambda>nv cv. if cv \<noteq> 0 \<and> nv = 0 then cv else 0) (data n) (data y) = data y"
    using len by (intro nth_equalityI) (auto simp: y_def)
  ultimately have "get_cyto n y = Inr y"
    by (simp add: y_def)
  with first show ?thesis by blast
qed

theorem get_cyto_idempotent_witness:
  "\<exists>y. get_cyto \<lparr>dtype = UInt W8, shape = [2, 2], data = [1, 0, 0, 0]\<rparr>
                 \<lparr>dtype = UInt W8, shape = [2, 2], data = [5, 5, 0, 7]\<rparr> = Inr y
     \<and> get_cyto \<lparr>dtype = UInt W8, shape = [2, 2], data = [1, 0, 0, 0]\<rparr> y = Inr y"
  by (rule get_cyto_idempotent) (simp_all add: wf_array_def)

subsection \<open>Bit-width compaction\<close>

text \<open>
  C3. On a label mask with at least one element, compaction returns the same shape and
  the same value at every pixel, and the element type depends on the maximum alone:
  8 bits below 256, 16 bits from 256 below 65536, otherwise the dtype is left as it was.
\<close>

theorem compact_mask_spec:
  assumes "data msk \<noteq> []"
  shows "\<exists>r. compact_mask msk = Inr r \<and> shape r = shape msk \<and> data r = data msk \<and>
           dtype r = (if Max (set (data msk)) < 256 then UInt W8
                      else if Max (set (data msk)) < 65536 then UInt W16
                      else dtype msk)"
proof -
  have small: "map (\<lambda>v. v mod k) (data msk) = data msk" if "Max (set (data msk)) < k" for k
  proof -
    have "v < k" if "v \<in> set (data msk)" for v
    proof -
      have "v \<le> Max (set (data msk))"
        using that by (intro Max_ge) simp_all
      with \<open>Max (set (data msk)) < k\<close> show ?thesis by simp
    qed
    then show ?thesis
      by (intro map_idI) simp
  qed
  show ?thesis
    using assms small [of 256] small [of 65536]
    by (auto simp: compact_mask_def astype_uint_def Let_def)
qed

theorem compact_mask_spec_witness:
  "\<exists>r. compact_mask \<lparr>dtype = UInt W32, shape = [2], data = [3, 300]\<rparr> = Inr r \<and>
       shape r = [2] \<and> data r = [3, 300] \<and> dtype r = UInt W16"
  using compact_mask_spec [of "\<lparr>dtype = UInt W32, shape = [2], data = [3, 300]\<rparr>"]
  by simp

subsection \<open>Nucleus-to-cell link\<close>

lemma find_snoc:
  "find P (xs @ [x]) = (case find P xs of Some y \<Rightarrow> Some y | None \<Rightarrow> if P x then Some x else None)"
  by (induction xs) auto

lemma map_of_fold_update:
  "map_of (fold (\<lambda>(k, v). AList.update k v) ps acc) l =
     (case find (\<lambda>p. fst p = l) (rev ps) of
        Some p \<Rightarrow> Some (snd p)
      | None \<Rightarrow> map_of acc l)"
proof (induction ps arbitrary: acc)
  case Nil
  then show ?case by simp
next
  case (Cons p ps)
  obtain k v where p: "p = (k, v)" by (cases p)
  show ?case
    by (auto simp: Cons.IH p find_snoc update_conv' split: option.splits)
qed

lemma distinct_fold_update:
  "distinct (map fst acc) \<Longrightarrow> distinct (map fst (fold (\<lambda>(k, v). AList.update k v) ps acc))"
  by (induction ps arbitrary: acc) (auto simp: distinct_update)

lemma select_nucleus:
  "length ns = length cs \<Longrightarrow>
     map fst (filter snd (zip ns (map2 (\<and>) (map P cs) (map Q ns))))
       = map fst (filter (\<lambda>(nv, cv). P cv \<and> Q nv) (zip ns cs))"
  by (induction ns cs rule: list_induct2) auto

lemma select_cell:
  "length ns = length cs \<Longrightarrow>
     map fst (filter snd (zip cs (map2 (\<and>) (map P cs) (map Q ns))))
       = map snd (filter (\<lambda>(nv, cv). P cv \<and> Q nv) (zip ns cs))"
  by (induction ns cs rule: list_induct2) auto

lemma overlay_mask_same:
  assumes "wf_array n" "wf_array c" "shape n = shape c"
  shows "overlay_mask n (Some c) = Inr (Linked (dict_of_pairs (overlap_pairs n c)))"
proof -
  have len: "length (data n) = length (data c)"
    using assms by (simp add: wf_array_def)
  define ovl where "ovl = \<lparr>dtype = Bool, shape = shape (ne0 c),
      data = map2 (\<and>) (data (ne0 c)) (data (ne0 n))\<rparr>"
  have e: "elementwise2 Bool (\<and>) (ne0 c) (ne0 n) = Inr ovl"
    unfolding ovl_def using assms
    by (intro elementwise2_same) (simp_all add: wf_array_def ne0_def)
  let ?F = "filter (\<lambda>(nv, cv). cv \<noteq> 0 \<and> nv \<noteq> 0) (zip (data n) (data c))"
  have bn: "boolean_index n ovl = Inr (map fst ?F)"
    using assms select_nucleus [OF len, of "\<lambda>v. v \<noteq> 0" "\<lambda>v. v \<noteq> 0"]
    by (simp add: boolean_index_def ovl_def ne0_def)
  have bc: "boolean_index c ovl = Inr (map snd ?F)"
    using assms select_cell [OF len, of "\<lambda>v. v \<noteq> 0" "\<lambda>v. v \<noteq> 0"]
    by (simp add: boolean_index_def ovl_def ne0_def)
  have "overlay_mask n (Some c) = Inr (Linked (dict_of_pairs (zip (map fst ?F) (map snd ?F))))"
    by (simp add: overlay_mask_def e bindE_def bn bc)
  then show ?thesis
    by (simp add: overlap_pairs_def zip_map_fst_snd)
qed

text \<open>
  C2, as the code has it. For same-shaped masks the link holds every nucleus label at
  most once; a nucleus label with an overlapping pixel is linked to the cell label at
  its last overlapping pixel in flatten order (a later pixel overwrites the entry of an
  earlier one); a nucleus label without overlapping pixel has no entry.
\<close>

theorem overlay_mask_last_wins:
  assumes "wf_array n" "wf_array c" "shape n = shape c"
  shows "\<exists>ov. overlay_mask n (Some c) = Inr (Linked ov) \<and> distinct (map fst ov) \<and>
           (\<forall>l. map_of ov l = last_overlap_cell n c l) \<and>
           (\<forall>l. l \<notin> fst ` set (overlap_pairs n c) \<longrightarrow> l \<notin> fst ` set ov)"
proof -
  let ?ov = "dict_of_pairs (overlap_pairs n c)"
  have lw: "map_of ?ov l = last_overlap_cell n c l" for l
    by (simp add: dict_of_pairs_def last_overlap_cell_def map_of_fold_update
        split: option.splits)
  have "l \<notin> fst ` set ?ov" if "l \<notin> fst ` set (overlap_pairs n c)" for l
  proof -
    have "find (\<lambda>p. fst p = l) (rev (overlap_pairs n c)) = None"
      using that by (force simp: find_None_iff)
    then have "map_of ?ov l = None"
      by (simp add: lw last_overlap_cell_def)
    then show ?thesis
      by (simp add: map_of_eq_None_iff)
  qed
  moreover have "distinct (map fst ?ov)"
    by (simp add: dict_of_pairs_def distinct_fold_update)
  ultimately show ?thesis
    using overlay_mask_same [OF assms] lw by blast
qed

theorem overlay_mask_last_wins_witness:
  "\<exists>ov. overlay_mask \<lparr>dtype = UInt W8, shape = [4], data = [1, 1, 2, 0]\<rparr>
              (Some \<lparr>dtype = UInt W8, shape = [4], data = [2, 3, 0, 4]\<rparr>) = Inr (Linked ov) \<and>
        map_of ov 1 = Some 3 \<and> map_of ov 2 = None"
proof -
  let ?n = "\<lparr>dtype = UInt W8, shape = [4], data = [1, 1, 2, 0::nat]\<rparr>"
  let ?c = "\<lparr>dtype = UInt W8, shape = [4], data = [2, 3, 0, 4::nat]\<rparr>"
  have h: "wf_array ?n" "wf_array ?c" "shape ?n = shape ?c"
    by (simp_all add: wf_array_def)
  obtain ov where ov: "overlay_mask ?n (Some ?c) = Inr (Linked ov)"
      "\<forall>l. map_of ov l = last_overlap_cell ?n ?c l"
    using overlay_mask_last_wins [OF h] by blast
  have "last_overlap_cell ?n ?c 1 = Some 3" "last_overlap_cell ?n ?c 2 = None"
    by (simp_all add: last_overlap_cell_def overlap_pairs_def)
  with ov show ?thesis by auto
qed

text \<open>
  C2, as the specification states it, fails: with nucleus label 1 on two pixels that lie
  in cells 2 and 3, the link holds 3, the cell of the last overlapping pixel, while the
  first overlapping pixel lies in cell 2.
\<close>

theorem overlay_mask_first_wins_counterexample:
  "overlay_mask \<lparr>dtype = UInt W8, shape = [2], data = [1, 1]\<rparr>
                (Some \<lparr>dtype = UInt W8, shape = [2], data = [2, 3]\<rparr>) = Inr (Linked [(1, 3)]) \<and>
   first_overlap_cell \<lparr>dtype = UInt W8, shape = [2], data = [1, 1]\<rparr>
                      \<lparr>dtype = UInt W8, shape = [2], data = [2, 3]\<rparr> 1 = Some 2"
  by code_simp

subsection \<open>Post-filtering\<close>

lemma linked_iff:
  "(i, j) \<in> linked a \<longleftrightarrow>
     i < length (data a) \<and> j < length (data a) \<and> data a ! i \<noteq> 0 \<and>
     data a ! i = data a ! j \<and>
     neighbours (unravel_index (shape a) i) (unravel_index (shape a) j)"
  by (auto simp: linked_def)

lemma same_region_rtrancl: "same_region a i j \<longleftrightarrow> (i, j) \<in> (linked a)\<^sup>*"
  by (auto simp: same_region_def rtrancl_eq_or_trancl)

lemma touches_border_iff:
  "touches_border b a i \<longleftrightarrow>
     (\<exists>j < length (data a). (i, j) \<in> (linked a)\<^sup>* \<and>
        in_border b (shape a) (unravel_index (shape a) j))"
  by (auto simp: touches_border_def list_ex_iff same_region_rtrancl)

lemma count_list_map_upt:
  "count_list (map f [0..<n]) v = card {i. i < n \<and> f i = v}"
proof (induction n)
  case 0
  then show ?case by simp
next
  case (Suc n)
  have fin: "finite {i. i < n \<and> f i = v}" by simp
  have new: "n \<notin> {i. i < n \<and> f i = v}" by simp
  have split: "{i. i < Suc n \<and> f i = v}
      = (if f n = v then insert n {i. i < n \<and> f i = v} else {i. i < n \<and> f i = v})"
    by (auto simp: less_Suc_eq)
  show ?case
    using Suc fin new by (simp add: split)
qed

lemma count_list_map_le:
  assumes "\<And>i. i < length xs \<Longrightarrow> f i = v \<Longrightarrow> xs ! i = v"
  shows "count_list (map f [0..<length xs]) v \<le> count_list xs v"
proof -
  have "count_list xs v = count_list (map (\<lambda>i. xs ! i) [0..<length xs]) v"
    by (simp add: map_nth)
  also have "\<dots> = card {i. i < length xs \<and> xs ! i = v}"
    by (rule count_list_map_upt)
  finally have c: "count_list xs v = card {i. i < length xs \<and> xs ! i = v}" .
  have "card {i. i < length xs \<and> f i = v} \<le> card {i. i < length xs \<and> xs ! i = v}"
    using assms by (intro card_mono) auto
  then show ?thesis
    by (simp add: count_list_map_upt c)
qed

lemma mask_sizes_nth:
  assumes "v \<in> set xs"
  shows "(map (\<lambda>s. s > 10) (bincount xs))[0 := False] ! v = (v \<noteq> 0 \<and> count_list xs v > 10)"
proof -
  have ne: "xs \<noteq> []" using assms by auto
  have "v \<le> Max (set xs)"
    using assms by (intro Max_ge) simp_all
  then have v: "v < Suc (Max (set xs))" by simp
  then have len: "v < length (map (\<lambda>s. s > 10) (bincount xs))"
    using ne by (simp add: bincount_def)
  have "map (\<lambda>s. s > 10) (bincount xs) ! v = (count_list xs v > 10)"
    using ne v by (simp add: bincount_def del: upt_Suc)
  then show ?thesis
    using len by (cases "v = 0") (simp_all add: nth_list_update del: upt_Suc)
qed

lemma prod_list_pos: "\<forall>d \<in> set s. 0 < d \<Longrightarrow> 0 < prod_list s"
  for s :: "nat list"
  by (induction s) auto

lemma filter_segmentation_data:
  assumes wf: "wf_array msk" and dims: "\<forall>d \<in> set (shape msk). 5 < d"
  shows "filter_segmentation msk =
     Inr \<lparr>dtype = dtype msk, shape = shape msk,
          data = map (\<lambda>i. if kept msk i then data msk ! i else 0) [0..<length (data msk)]\<rparr>"
proof -
  define n where "n = length (data msk)"
  define c where "c = map (\<lambda>k. if touches_border 5 msk k then 0 else data msk ! k) [0..<n]"
  define ms where "ms = (map (\<lambda>s. s > 10) (bincount c))[0 := False]"
  define cc where "cc = \<lparr>dtype = Bool, shape = shape msk, data = map (\<lambda>v. ms ! v) c\<rparr>"
  have "0 < prod_list (shape msk)"
    using dims by (intro prod_list_pos) auto
  then have n: "0 < n"
    using wf by (simp add: wf_array_def n_def)
  have lc: "length c = n"
    by (simp add: c_def)
  have cb: "clear_border msk 5 = Inr (msk\<lparr>data := c\<rparr>)"
    using dims by (auto simp: clear_border_def list_ex_iff c_def n_def)
  have bne: "map (\<lambda>s. s > 10) (bincount c) \<noteq> []"
    using n lc by (auto simp: bincount_def simp del: upt_Suc)
  have ew: "elementwise2 (dtype msk) (\<lambda>b v. of_bool b * v) cc msk
      = Inr \<lparr>dtype = dtype msk, shape = shape cc,
             data = map2 (\<lambda>b v. of_bool b * v) (data cc) (data msk)\<rparr>"
    using wf lc by (intro elementwise2_same) (simp_all add: wf_array_def cc_def n_def)
  have d: "map2 (\<lambda>b v. of_bool b * v) (data cc) (data msk)
      = map (\<lambda>i. if kept msk i then data msk ! i else 0) [0..<n]"
  proof (intro nth_equalityI)
    show "length (map2 (\<lambda>b v. of_bool b * v) (data cc) (data msk))
        = length (map (\<lambda>i. if kept msk i then data msk ! i else 0) [0..<n])"
      using lc by (simp add: cc_def n_def)
  next
    fix i
    assume "i < length (map2 (\<lambda>b v. of_bool b * v) (data cc) (data msk))"
    then have i: "i < n"
      using lc by (simp add: cc_def n_def)
    have mem: "c ! i \<in> set c"
      using i lc by (intro nth_mem) simp
    have ci: "c ! i = (if touches_border 5 msk i then 0 else data msk ! i)"
      using i by (simp add: c_def)
    have "ms ! (c ! i) = (c ! i \<noteq> 0 \<and> count_list c (c ! i) > 10)"
      unfolding ms_def by (rule mask_sizes_nth [OF mem])
    then have k: "ms ! (c ! i) = kept msk i"
      unfolding ci by (auto simp: kept_def c_def n_def)
    have "map2 (\<lambda>b v. of_bool b * v) (data cc) (data msk) ! i
        = of_bool (ms ! (c ! i)) * data msk ! i"
      using i lc by (simp add: cc_def n_def)
    also have "\<dots> = (if kept msk i then data msk ! i else 0)"
      by (simp add: k)
    finally show "map2 (\<lambda>b v. of_bool b * v) (data cc) (data msk) ! i
        = map (\<lambda>i. if kept msk i then data msk ! i else 0) [0..<n] ! i"
      using i by simp
  qed
  have "filter_segmentation msk = elementwise2 (dtype msk) (\<lambda>b v. of_bool b * v) cc msk"
    using bne by (simp add: filter_segmentation_def cb bindE_def Let_def cc_def ms_def)
  also have "\<dots> = Inr \<lparr>dtype = dtype msk, shape = shape msk,
      data = map (\<lambda>i. if kept msk i then data msk ! i else 0) [0..<n]\<rparr>"
    unfolding ew d by (simp add: cc_def)
  finally show ?thesis
    by (simp add: n_def)
qed

text \<open>
  C6, as the code has it. On a mask whose axes are all longer than 5, filtering returns
  a mask of the same shape in which (a) no label with at most 10 pixels in the input
  occurs, (b) every pixel of a connected region that reaches into the border band is 0,
  and (c) every other pixel keeps its label exactly when more than 10 pixels of that
  label are left once the border regions are cleared, and is 0 otherwise.
\<close>

theorem filter_segmentation_spec:
  assumes wf: "wf_array msk" and dims: "\<forall>d \<in> set (shape msk). 5 < d"
  shows "\<exists>out. filter_segmentation msk = Inr out \<and> shape out = shape msk \<and>
           length (data out) = length (data msk) \<and>
           (\<forall>l. l \<noteq> 0 \<and> count_list (data msk) l \<le> 10 \<longrightarrow> l \<notin> set (data out)) \<and>
           (\<forall>i < length (data msk). touches_border 5 msk i \<longrightarrow> data out ! i = 0) \<and>
           (\<forall>i < length (data msk). \<not> touches_border 5 msk i \<longrightarrow>
              data out ! i =
                (if 10 < count_list
                          (map (\<lambda>k. if touches_border 5 msk k then 0 else data msk ! k)
                             [0..<length (data msk)])
                          (data msk ! i)
                 then data msk ! i else 0))"
proof -
  define out where "out = \<lparr>dtype = dtype msk, shape = shape msk,
      data = map (\<lambda>i. if kept msk i then data msk ! i else 0) [0..<length (data msk)]\<rparr>"
  have res: "filter_segmentation msk = Inr out"
    unfolding out_def by (rule filter_segmentation_data [OF wf dims])
  have small: "l \<notin> set (data out)" if l: "l \<noteq> 0" "count_list (data msk) l \<le> 10" for l
  proof
    assume "l \<in> set (data out)"
    then obtain i where i: "i < length (data msk)" "kept msk i" "data msk ! i = l"
      using l(1) by (auto simp: out_def split: if_splits)
    let ?f = "\<lambda>k. if touches_border 5 msk k then 0 else data msk ! k"
    have "10 < count_list (map ?f [0..<length (data msk)]) l"
      using i by (simp add: kept_def)
    moreover have "count_list (map ?f [0..<length (data msk)]) l \<le> count_list (data msk) l"
      using l(1) by (intro count_list_map_le) (auto split: if_splits)
    ultimately show False
      using l(2) by simp
  qed
  have border: "data out ! i = 0" if "i < length (data msk)" "touches_border 5 msk i" for i
    using that by (simp add: out_def kept_def)
  have inner: "data out ! i =
      (if 10 < count_list
                (map (\<lambda>k. if touches_border 5 msk k then 0 else data msk ! k)
                   [0..<length (data msk)])
                (data msk ! i)
       then data msk ! i else 0)"
    if "i < length (data msk)" "\<not> touches_border 5 msk i" for i
    using that by (simp add: out_def kept_def)
  have "shape out = shape msk" "length (data out) = length (data msk)"
    by (simp_all add: out_def)
  with res small border inner show ?thesis
    by (intro exI [of _ out]) blast
qed

theorem filter_segmentation_spec_witness:
  "\<exists>out. filter_segmentation \<lparr>dtype = UInt W32, shape = [6, 6], data = 3 # replicate 35 0\<rparr> = Inr out
       \<and> shape out = [6, 6] \<and> 3 \<notin> set (data out) \<and> data out ! 0 = 0"
proof -
  define m where "m = \<lparr>dtype = UInt W32, shape = [6, 6], data = 3 # replicate 35 (0::nat)\<rparr>"
  have h: "wf_array m" "\<forall>d \<in> set (shape m). 5 < d"
    by (simp_all add: wf_array_def m_def)
  have c: "(3::nat) \<noteq> 0 \<and> count_list (data m) 3 \<le> 10"
    by (simp add: count_list_0_iff m_def)
  have len: "0 < length (data m)"
    by (simp add: m_def)
  have "in_border 5 (shape m) (unravel_index (shape m) 0)"
    by (simp add: in_border_def m_def)
  then have "\<exists>j < length (data m). (0, j) \<in> (linked m)\<^sup>* \<and>
      in_border 5 (shape m) (unravel_index (shape m) j)"
    using len by (intro exI [of _ 0]) simp
  then have t: "touches_border 5 m 0"
    by (simp only: touches_border_iff)
  obtain out where out: "filter_segmentation m = Inr out" "shape out = shape m"
      "\<forall>l. l \<noteq> 0 \<and> count_list (data m) l \<le> 10 \<longrightarrow> l \<notin> set (data out)"
      "\<forall>i < length (data m). touches_border 5 m i \<longrightarrow> data out ! i = 0"
    using filter_segmentation_spec [OF h] by blast
  have "3 \<notin> set (data out)"
    using out(3) [rule_format, of 3] c by simp
  moreover have "data out ! 0 = 0"
    using out(4) [rule_format, of 0] t len by simp
  moreover have "shape out = [6, 6]"
    using out(2) by (simp add: m_def)
  ultimately show ?thesis
    using out(1) unfolding m_def by blast
qed

text \<open>
  The two-region mask: its inner block is closed under the neighbour relation and lies
  outside the border band, so none of its pixels is cleared and all of them are kept.
\<close>

lemma two_region_nth:
  "k < 240 \<Longrightarrow> data two_region_mask ! k = (if k = 0 \<or> k \<in> set two_region_pixels then 7 else 0)"
  by (simp add: two_region_mask_def del: upt_Suc)

lemma two_region_length: "length (data two_region_mask) = 240"
  by (simp add: two_region_mask_def del: upt_Suc)

lemma two_region_closed:
  assumes "(i, j) \<in> (linked two_region_mask)\<^sup>*" "i \<in> set two_region_pixels"
  shows "j \<in> set two_region_pixels"
  using assms
proof (induction rule: rtrancl_induct)
  case base
  then show ?case by simp
next
  case (step j k)
  then have j: "j \<in> set two_region_pixels" by simp
  from step(2) have k: "k < 240" "data two_region_mask ! j \<noteq> 0"
      "data two_region_mask ! j = data two_region_mask ! k"
      "neighbours (unravel_index [15, 16] j) (unravel_index [15, 16] k)"
    by (simp_all add: linked_iff two_region_length) (simp add: two_region_mask_def)
  have "j < 240"
    using j by (auto simp: two_region_pixels_def)
  then have "data two_region_mask ! k = 7"
    using k(3) j by (simp add: two_region_nth)
  then have "k = 0 \<or> k \<in> set two_region_pixels"
    using k(1) by (simp add: two_region_nth split: if_splits)
  moreover have "\<not> neighbours (unravel_index [15, 16] j) (unravel_index [15, 16] 0)"
    using j by (auto simp: two_region_pixels_def neighbours_def)
  ultimately show ?case
    using k(4) by auto
qed

lemma two_region_inner:
  assumes "j \<in> set two_region_pixels"
  shows "\<not> in_border 5 [15, 16] (unravel_index [15, 16] j)"
  using assms by (auto simp: two_region_pixels_def in_border_def)

lemma two_region_not_touching:
  assumes "i \<in> set two_region_pixels"
  shows "\<not> touches_border 5 two_region_mask i"
proof
  assume "touches_border 5 two_region_mask i"
  then obtain j where j: "(i, j) \<in> (linked two_region_mask)\<^sup>*"
      "in_border 5 (shape two_region_mask) (unravel_index (shape two_region_mask) j)"
    by (auto simp: touches_border_iff)
  have "j \<in> set two_region_pixels"
    by (rule two_region_closed [OF j(1) assms])
  then have "\<not> in_border 5 [15, 16] (unravel_index [15, 16] j)"
    by (rule two_region_inner)
  with j(2) show False
    by (simp add: two_region_mask_def)
qed

lemma two_region_kept:
  assumes "i \<in> set two_region_pixels"
  shows "kept two_region_mask i"
proof -
  let ?f = "\<lambda>k. if touches_border 5 two_region_mask k then 0 else data two_region_mask ! k"
  have lt: "k < 240" if "k \<in> set two_region_pixels" for k
    using that by (auto simp: two_region_pixels_def)
  have sub: "set two_region_pixels \<subseteq> {k. k < 240 \<and> ?f k = 7}"
    using lt two_region_not_touching by (auto simp: two_region_nth)
  have "card (set two_region_pixels) = 12"
    by (simp add: two_region_pixels_def)
  moreover have "card (set two_region_pixels) \<le> card {k. k < 240 \<and> ?f k = 7}"
    using sub by (intro card_mono) simp_all
  ultimately have "10 < count_list (map ?f [0..<240]) 7"
    by (simp add: count_list_map_upt)
  moreover have "data two_region_mask ! i = 7"
    using assms lt by (simp add: two_region_nth)
  ultimately show ?thesis
    using two_region_not_touching [OF assms] by (simp add: kept_def two_region_length)
qed

text \<open>
  C6, as the specification states it, fails for an object that is not connected: in
  \<open>two_region_mask\<close> object 7 touches the border at the corner pixel, and has 13
  pixels; after filtering its 12 inner pixels still carry label 7.
\<close>

theorem filter_segmentation_border_counterexample:
  "data two_region_mask ! 0 = 7 \<and>
   in_border 5 (shape two_region_mask) (unravel_index (shape two_region_mask) 0) \<and>
   map_sum id (\<lambda>out. data out ! 102) (filter_segmentation two_region_mask) = Inr 7"
proof -
  have h: "wf_array two_region_mask" "\<forall>d \<in> set (shape two_region_mask). 5 < d"
    by (simp_all add: wf_array_def two_region_mask_def del: upt_Suc)
  have m: "102 \<in> set two_region_pixels"
    by (simp add: two_region_pixels_def)
  have "data two_region_mask ! 102 = 7"
    using m by (simp add: two_region_nth)
  then have "map_sum id (\<lambda>out. data out ! 102) (filter_segmentation two_region_mask) = Inr 7"
    using two_region_kept [OF m]
    by (simp add: filter_segmentation_data [OF h] two_region_length del: upt_Suc)
  moreover have "data two_region_mask ! 0 = 7"
    by (simp add: two_region_nth)
  moreover have "in_border 5 (shape two_region_mask) (unravel_index (shape two_region_mask) 0)"
    by (simp add: two_region_mask_def in_border_def)
  ultimately show ?thesis by simp
qed

subsection \<open>Mask acquisition\<close>

lemma index_last_ok:
  assumes "shape a \<noteq> []" "k < last (shape a)"
  shows "index_last a k =
     Inr \<lparr>dtype = dtype a, shape = butlast (shape a),
          data = map (\<lambda>i. data a ! (i * last (shape a) + k)) [0..<prod_list (butlast (shape a))]\<rparr>"
  using assms by (simp add: index_last_def Let_def)

lemma index_last_wf:
  assumes "index_last a k = Inr b"
  shows "wf_array b \<and> shape b = butlast (shape a) \<and> dtype b = dtype a"
  using assms by (auto simp: index_last_def Let_def wf_array_def split: if_splits)

text \<open>
  C9. When a child of the dataset is named \<^verbatim>\<open>"{image_id}_segmentation"\<close> and holds
  a mask array with enough channels, the segmentation returns the stored channel 0 as
  nucleus mask and, when a \<open>Tub\<close> channel is configured, the stored channel 1 as cell
  mask together with the cytoplasm derived from the two. The event log comes back
  unchanged (no model call, no upload) and the result is the same whatever the model is.
\<close>

theorem segmentation_cache_hit:
  assumes hit: "find (\<lambda>child. fst child = string_of_nat (image_id im) @ ''_segmentation'')
                  (children e) = Some child"
    and img: "get_image e (snd child) = Inr masks"
    and shp: "shape masks \<noteq> []"
    and chn: "(if ''Tub'' \<in> fst ` set (channels im) then 2 else 1) \<le> last (shape masks)"
  shows "\<exists>n. index_last masks 0 = Inr n \<and>
           (if ''Tub'' \<in> fst ` set (channels im)
            then \<exists>c cy. index_last masks 1 = Inr c \<and> get_cyto n c = Inr cy \<and>
                   segmentation e im evs = Inr ((n, Some c, Some cy), evs)
            else segmentation e im evs = Inr ((n, None, None), evs)) \<and>
           segmentation (e\<lparr>model_eval := m\<rparr>) im evs = segmentation e im evs"
proof -
  have pos: "0 < last (shape masks)"
    using chn by (simp split: if_splits)
  obtain n where n: "index_last masks 0 = Inr n"
    using index_last_ok [OF shp pos] by blast
  have same: "segmentation (e\<lparr>model_eval := m\<rparr>) im evs = segmentation e im evs"
    using hit by (simp add: segmentation_def Let_def)
  show ?thesis
  proof (cases "''Tub'' \<in> fst ` set (channels im)")
    case False
    then have "segmentation e im evs = Inr ((n, None, None), evs)"
      using hit img n by (simp add: segmentation_def Let_def bindE_def)
    with False n same show ?thesis by simp
  next
    case True
    then have "1 < last (shape masks)"
      using chn by simp
    then obtain c where c: "index_last masks 1 = Inr c"
      using index_last_ok [OF shp] by blast
    have "wf_array n" "wf_array c" "shape n = shape c"
      using index_last_wf [OF n] index_last_wf [OF c] by simp_all
    then obtain cy where cy: "get_cyto n c = Inr cy"
      using get_cyto_same by blast
    have "segmentation e im evs = Inr ((n, Some c, Some cy), evs)"
      using True hit img n c cy by (simp add: segmentation_def Let_def bindE_def)
    with True n c cy same show ?thesis by simp
  qed
qed

text \<open>
  C10. Whenever the segmentation returns, the cytoplasm mask is absent exactly when the
  cell mask is absent, and both are absent exactly when the channel metadata has no
  \<open>Tub\<close> channel, on the stored-mask path and on the computing path alike.
\<close>

theorem segmentation_none_iff:
  assumes "segmentation e im evs = Inr ((n, c, cy), evs')"
  shows "(cy = None \<longleftrightarrow> c = None) \<and> (c = None \<longleftrightarrow> ''Tub'' \<notin> fst ` set (channels im))"
proof (cases "find (\<lambda>child. fst child = string_of_nat (image_id im) @ ''_segmentation'') (children e)")
  case (Some child)
  with assms show ?thesis
    by (auto simp: segmentation_def Let_def bindE_def split: sum.splits if_splits)
next
  case None
  with assms show ?thesis
    by (auto simp: segmentation_def Let_def bindE_def split: sum.splits if_splits prod.splits)
qed

subsection \<open>Recovery from an IndexError of the model\<close>

lemma strip_ones_short: "length s \<le> r \<Longrightarrow> strip_ones r s = s"
  by (cases s) auto

lemma zeros_wf: "wf_array (zeros dt s)"
  by (simp add: zeros_def wf_array_def)

lemma filter_segmentation_zeros:
  assumes "\<forall>d \<in> set s. 5 < d"
  shows "filter_segmentation (zeros dt s) = Inr (zeros dt s)"
proof -
  have "shape (zeros dt s) = s"
    by (simp add: zeros_def)
  with assms have dims: "\<forall>d \<in> set (shape (zeros dt s)). 5 < d"
    by simp
  have "map (\<lambda>i. if kept (zeros dt s) i then data (zeros dt s) ! i else 0)
          [0..<length (data (zeros dt s))] = replicate (prod_list s) 0"
    by (intro nth_equalityI) (simp_all add: zeros_def)
  then show ?thesis
    using filter_segmentation_data [OF zeros_wf dims]
    by (simp add: zeros_def)
qed

text \<open>
  The nucleus loop at a timepoint where the model raises IndexError: for an image block
  whose axes are all longer than 5, the block of that timepoint is set to 0 and the loop
  goes on with the remaining timepoints.
\<close>

lemma n_seg_loop_index_error_recovers:
  assumes blk: "index0 img_array t = Inr img_t"
    and dims: "\<forall>d \<in> set (shape img_t). 5 < d"
    and err: "model_eval e mt (scale_img (stretch e) img_t) (0, 0) (Some diam) = Inl IndexError"
    and seg: "shape (fst st) = d # shape img_t" "t < d"
  shows "n_seg_loop e mt diam img_array (t # ts) st =
     n_seg_loop e mt diam img_array ts
       ((fst st)\<lparr>data := take (t * prod_list (shape img_t)) (data (fst st))
                        @ replicate (prod_list (shape img_t)) 0
                        @ drop (Suc t * prod_list (shape img_t)) (data (fst st))\<rparr>,
        snd st @ [ModelEval mt (scale_img (stretch e) img_t)])"
proof -
  let ?s = "shape img_t"
  have sc: "shape (scale_img (stretch e) img_t) = ?s"
    by (simp add: scale_img_def)
  have f: "filter_segmentation (zeros (UInt W8) ?s) = Inr (zeros (UInt W8) ?s)"
    by (rule filter_segmentation_zeros [OF dims])
  have st: "strip_ones (length ?s) (shape (zeros (UInt W8) ?s)) = ?s"
    by (simp add: zeros_def strip_ones_short)
  have same: "(zeros (UInt W8) ?s)\<lparr>shape := ?s\<rparr> = zeros (UInt W8) ?s"
    by (simp add: zeros_def)
  have bt: "broadcast_to ?s (zeros (UInt W8) ?s) = replicate (prod_list ?s) 0"
    using broadcast_to_same [OF zeros_wf, of "UInt W8" ?s] by (simp add: zeros_def)
  have si: "setitem0 (fst st) t (zeros (UInt W8) ?s) =
      Inr ((fst st)\<lparr>data := take (t * prod_list ?s) (data (fst st))
                        @ replicate (prod_list ?s) 0
                        @ drop (Suc t * prod_list ?s) (data (fst st))\<rparr>)"
    using seg by (simp add: setitem0_def st same bt broadcast_shapes_same Let_def)
  show ?thesis
    by (simp add: blk Let_def bindE_def err sc f si)
qed

lemma dstack_third_axis:
  assumes "dstack a b = Inr r" "length (shape a) \<le> 2" "length (shape b) \<le> 2"
  shows "2 \<in> set (shape r)"
proof -
  have a: "length (shape (atleast_3d a)) = 3 \<and> shape (atleast_3d a) ! 2 = 1"
    using assms(2) by (auto simp: atleast_3d_def split: list.splits)
  have b: "length (shape (atleast_3d b)) = 3 \<and> shape (atleast_3d b) ! 2 = 1"
    using assms(3) by (auto simp: atleast_3d_def split: list.splits)
  have "shape r = take 2 (shape (atleast_3d a))
      @ [shape (atleast_3d a) ! 2 + shape (atleast_3d b) ! 2] @ drop 3 (shape (atleast_3d a))"
    using assms(1) by (auto simp: dstack_def Let_def split: if_splits)
  then show ?thesis
    using a b by simp
qed

text \<open>
  C7, the cell loop. At a timepoint where the model raises IndexError the substitute mask
  has the shape of the two-channel composite, whose last axis has length 2; the border
  filter rejects it (its buffer of 5 is not smaller than that axis) and the loop ends with
  a ValueError instead of an all-zero mask for the timepoint.
\<close>

theorem c_seg_loop_index_error_raises:
  assumes "index0 dapi_array t = Inr dapi_t" "index0 tub_array t = Inr tub_t"
    and "length (shape dapi_t) \<le> 2" "length (shape tub_t) \<le> 2"
    and "dstack dapi_t tub_t = Inr stacked"
    and "model_eval e mt (scale_img (stretch e) stacked) (2, 1) None = Inl IndexError"
  shows "c_seg_loop e mt dapi_array tub_array (t # ts) st = Inl ValueError"
proof -
  have "2 \<in> set (shape stacked)"
    by (rule dstack_third_axis [OF assms(5) assms(3) assms(4)])
  then have "list_ex (\<lambda>s. s \<le> 5) (shape (zeros (UInt W8) (shape (scale_img (stretch e) stacked))))"
    by (auto simp: list_ex_iff zeros_def scale_img_def intro!: bexI [of _ 2])
  then have "filter_segmentation (zeros (UInt W8) (shape (scale_img (stretch e) stacked)))
      = Inl ValueError"
    by (simp add: filter_segmentation_def clear_border_def bindE_def)
  then show ?thesis
    using assms by (simp add: bindE_def Let_def)
qed

subsection \<open>The theorems at the example inputs\<close>

lemma image_name_7: "string_of_nat 7 @ ''_segmentation'' = ''7_segmentation''"
  by (simp add: string_of_nat.simps)

theorem segmentation_cache_hit_witness:
  "segmentation stored_env tub_image [] =
     Inr ((\<lparr>dtype = UInt W8, shape = [1, 1, 1, 2], data = [1, 0]\<rparr>,
           Some \<lparr>dtype = UInt W8, shape = [1, 1, 1, 2], data = [5, 5]\<rparr>,
           Some \<lparr>dtype = UInt W8, shape = [1, 1, 1, 2], data = [0, 5]\<rparr>), [])"
proof -
  have hit: "find (\<lambda>child. fst child = string_of_nat (image_id tub_image) @ ''_segmentation'')
      (children stored_env) = Some (''7_segmentation'', 3)"
    by (simp add: tub_image_def stored_env_def image_name_7)
  have img: "get_image stored_env (snd (''7_segmentation'', 3::nat)) = Inr stored_masks"
    by (simp add: stored_env_def)
  have shp: "shape stored_masks \<noteq> []"
    by (simp add: stored_masks_def)
  have tub: "''Tub'' \<in> fst ` set (channels tub_image)"
    by (simp add: tub_image_def)
  then have chn: "(if ''Tub'' \<in> fst ` set (channels tub_image) then 2 else 1)
      \<le> last (shape stored_masks)"
    by (simp add: stored_masks_def)
  have "\<exists>n. index_last stored_masks 0 = Inr n \<and>
      (\<exists>c cy. index_last stored_masks 1 = Inr c \<and> get_cyto n c = Inr cy \<and>
         segmentation stored_env tub_image [] = Inr ((n, Some c, Some cy), []))"
    using segmentation_cache_hit [OF hit img shp chn, where evs = "[]"
        and m = "model_eval stored_env"]
    by (simp only: tub if_True) blast
  then obtain n c cy where r: "index_last stored_masks 0 = Inr n" "index_last stored_masks 1 = Inr c"
      "get_cyto n c = Inr cy" "segmentation stored_env tub_image [] = Inr ((n, Some c, Some cy), [])"
    by blast
  have "index_last stored_masks 0 = Inr \<lparr>dtype = UInt W8, shape = [1, 1, 1, 2], data = [1, 0]\<rparr>"
    by code_simp
  with r(1) have n: "n = \<lparr>dtype = UInt W8, shape = [1, 1, 1, 2], data = [1, 0]\<rparr>"
    by simp
  have "index_last stored_masks 1 = Inr \<lparr>dtype = UInt W8, shape = [1, 1, 1, 2], data = [5, 5]\<rparr>"
    by code_simp
  with r(2) have c: "c = \<lparr>dtype = UInt W8, shape = [1, 1, 1, 2], data = [5, 5]\<rparr>"
    by simp
  have "get_cyto n c = Inr \<lparr>dtype = UInt W8, shape = [1, 1, 1, 2], data = [0, 5]\<rparr>"
    unfolding n c by (subst get_cyto_same) (simp_all add: wf_array_def)
  with r(3) have "cy = \<lparr>dtype = UInt W8, shape = [1, 1, 1, 2], data = [0, 5]\<rparr>"
    by simp
  with r(4) n c show ?thesis by simp
qed

lemma index0_flat_image:
  "index0 flat_image 0 = Inr \<lparr>dtype = Float64, shape = [6, 6], data = replicate 36 (Fin 1)\<rparr>"
  by (simp add: index0_def flat_image_def)

theorem segmentation_none_iff_witness:
  "\<exists>n c cy evs'. segmentation failing_env dapi_image [] = Inr ((n, c, cy), evs') \<and>
     (cy = None \<longleftrightarrow> c = None) \<and>
     (c = None \<longleftrightarrow> ''Tub'' \<notin> fst ` set (channels dapi_image))"
proof -
  let ?blk = "\<lparr>dtype = Float64, shape = [6, 6], data = replicate 36 (Fin 1)\<rparr>"
  have loop: "n_seg_loop failing_env ''nuclei'' 10 flat_image [0] (zeros (UInt W32) [1, 6, 6], [])
      = Inr ((zeros (UInt W32) [1, 6, 6])\<lparr>data := replicate 36 0\<rparr>,
             [ModelEval ''nuclei'' (scale_img (stretch failing_env) ?blk)])"
    by (subst n_seg_loop_index_error_recovers [OF index0_flat_image, where d = 1])
      (simp_all add: failing_env_def zeros_def)
  have fe: "model_dict failing_env ''nuclei'' = Some ''nuclei''" "children failing_env = []"
    by (simp_all add: failing_env_def)
  have di: "img_dict dapi_image ''DAPI'' = Some flat_image" "cell_line dapi_image = ''U2OS''"
      "channels dapi_image = [(''DAPI'', 0)]"
    by (simp_all add: dapi_image_def)
  have diam: "nuc_diameter_of ''U2OS'' = 10"
    by (simp add: nuc_diameter_of_def upper_def upper_char_def)
  have sh: "shape flat_image = [1, 6, 6]"
    by (simp add: flat_image_def)
  have nseg: "n_segmentation failing_env dapi_image []
      = Inr ((zeros (UInt W32) [1, 6, 6])\<lparr>data := replicate 36 0\<rparr>,
             [ModelEval ''nuclei'' (scale_img (stretch failing_env) ?blk)])"
    using loop by (simp add: n_segmentation_def fe di diam sh)
  have "\<exists>r. segmentation failing_env dapi_image [] = Inr r"
    by (simp add: segmentation_def Let_def fe di nseg bindE_def compact_mask_def)
  then obtain r where "segmentation failing_env dapi_image [] = Inr r"
    by blast
  then obtain n c cy evs' where r: "segmentation failing_env dapi_image [] = Inr ((n, c, cy), evs')"
    by (cases r) auto
  show ?thesis
    using r segmentation_none_iff [OF r] by blast
qed

lemma dstack_flat_block:
  "\<exists>stacked. dstack \<lparr>dtype = Float64, shape = [6, 6], data = replicate 36 (Fin 1)\<rparr>
                    \<lparr>dtype = Float64, shape = [6, 6], data = replicate 36 (Fin 1)\<rparr> = Inr stacked"
  by (simp add: dstack_def atleast_3d_def Let_def)

theorem c_seg_loop_index_error_raises_witness:
  "c_segmentation failing_env tub_image [] = Inl ValueError"
proof -
  let ?blk = "\<lparr>dtype = Float64, shape = [6, 6], data = replicate 36 (Fin 1)\<rparr>"
  obtain stacked where s: "dstack ?blk ?blk = Inr stacked"
    using dstack_flat_block by blast
  have m: "model_eval failing_env ''cyto'' (scale_img (stretch failing_env) stacked) (2, 1) None
      = Inl IndexError"
    by (simp add: failing_env_def)
  have loop: "c_seg_loop failing_env ''cyto'' flat_image flat_image (0 # [])
      (zeros (UInt W32) [1, 6, 6], []) = Inl ValueError"
    by (rule c_seg_loop_index_error_raises [OF index0_flat_image index0_flat_image _ _ s m])
      simp_all
  have gm: "get_models failing_env tub_image = Inr ''cyto''"
    by (simp add: get_models_def tub_image_def failing_env_def upper_def upper_char_def Let_def)
  have ti: "img_dict tub_image ''DAPI'' = Some flat_image"
      "img_dict tub_image ''Tub'' = Some flat_image"
    by (simp_all add: tub_image_def)
  have sh: "shape flat_image = [1, 6, 6]"
    by (simp add: flat_image_def)
  show ?thesis
    using loop by (simp add: c_segmentation_def gm bindE_def ti sh)
qed

subsection \<open>Flatfield correction\<close>

text \<open>
  C8, as the code has it. The correction is a pure function. With a field of the shape
  of the raw stack (whose second axis has length 1) it returns the element-wise quotient
  as a float array without that axis. A field of another shape is broadcast against the
  stack, and the result is the element-wise quotient of the two broadcast arrays. The
  call fails exactly when the two shapes cannot be broadcast against each other
  (ValueError), when the broadcast result has fewer than two axes (AxisError) or when
  its second axis has a length other than 1 (ValueError).
\<close>

theorem flatfield_correct_spec:
  assumes "wf_array raw" "wf_array field"
  shows "(shape field = shape raw \<and> 2 \<le> length (shape raw) \<and> shape raw ! 1 = 1 \<longrightarrow>
            flatfield_correct raw field =
              Inr \<lparr>dtype = Float64, shape = hd (shape raw) # drop 2 (shape raw),
                   data = map2 fdiv (data raw) (data field)\<rparr>) \<and>
         ((\<exists>err. flatfield_correct raw field = Inl err) \<longleftrightarrow>
            (case broadcast_shapes (shape raw) (shape field) of
               None \<Rightarrow> True
             | Some s \<Rightarrow> length s < 2 \<or> s ! 1 \<noteq> 1)) \<and>
         (broadcast_shapes (shape raw) (shape field) = None \<longrightarrow>
            flatfield_correct raw field = Inl ValueError) \<and>
         (\<forall>s. broadcast_shapes (shape raw) (shape field) = Some s \<longrightarrow>
            (length s < 2 \<longrightarrow> flatfield_correct raw field = Inl AxisError) \<and>
            (2 \<le> length s \<and> s ! 1 \<noteq> 1 \<longrightarrow> flatfield_correct raw field = Inl ValueError) \<and>
            (2 \<le> length s \<and> s ! 1 = 1 \<longrightarrow>
               flatfield_correct raw field =
                 Inr \<lparr>dtype = Float64, shape = hd s # drop 2 s,
                      data = map2 fdiv (broadcast_to s raw) (broadcast_to s field)\<rparr>))"
proof (intro conjI impI allI)
  assume a: "shape field = shape raw \<and> 2 \<le> length (shape raw) \<and> shape raw ! 1 = 1"
  then obtain d0 d1 ds where s: "shape raw = d0 # d1 # ds"
    by (cases "shape raw"; cases "tl (shape raw)") auto
  have "elementwise2 Float64 fdiv raw field =
      Inr \<lparr>dtype = Float64, shape = shape raw, data = map2 fdiv (data raw) (data field)\<rparr>"
    using assms a by (intro elementwise2_same) simp_all
  then show "flatfield_correct raw field =
      Inr \<lparr>dtype = Float64, shape = hd (shape raw) # drop 2 (shape raw),
           data = map2 fdiv (data raw) (data field)\<rparr>"
    using a s by (simp add: flatfield_correct_def bindE_def squeeze_axis1_def)
next
  show "(\<exists>err. flatfield_correct raw field = Inl err) \<longleftrightarrow>
      (case broadcast_shapes (shape raw) (shape field) of
         None \<Rightarrow> True
       | Some s \<Rightarrow> length s < 2 \<or> s ! 1 \<noteq> 1)"
  proof (cases "broadcast_shapes (shape raw) (shape field)")
    case None
    then show ?thesis
      by (simp add: flatfield_correct_def bindE_def elementwise2_def)
  next
    case (Some s)
    then show ?thesis
      by (cases s; cases "tl s")
        (auto simp: flatfield_correct_def bindE_def elementwise2_def squeeze_axis1_def)
  qed
next
  assume "broadcast_shapes (shape raw) (shape field) = None"
  then show "flatfield_correct raw field = Inl ValueError"
    by (simp add: flatfield_correct_def bindE_def elementwise2_def)
next
  fix s
  assume "broadcast_shapes (shape raw) (shape field) = Some s" "length s < 2"
  then show "flatfield_correct raw field = Inl AxisError"
    by (cases s; cases "tl s")
      (auto simp: flatfield_correct_def bindE_def elementwise2_def squeeze_axis1_def)
next
  fix s
  assume "broadcast_shapes (shape raw) (shape field) = Some s" "2 \<le> length s \<and> s ! 1 \<noteq> 1"
  then show "flatfield_correct raw field = Inl ValueError"
    by (cases s; cases "tl s")
      (auto simp: flatfield_correct_def bindE_def elementwise2_def squeeze_axis1_def)
next
  fix s
  assume "broadcast_shapes (shape raw) (shape field) = Some s" "2 \<le> length s \<and> s ! 1 = 1"
  then show "flatfield_correct raw field =
      Inr \<lparr>dtype = Float64, shape = hd s # drop 2 s,
           data = map2 fdiv (broadcast_to s raw) (broadcast_to s field)\<rparr>"
    by (cases s; cases "tl s")
      (auto simp: flatfield_correct_def bindE_def elementwise2_def squeeze_axis1_def)
qed

theorem flatfield_correct_spec_witness:
  "flatfield_correct \<lparr>dtype = UInt W16, shape = [1, 1, 2], data = [6, 8]\<rparr>
                     \<lparr>dtype = Float64, shape = [1, 1, 2], data = [2, 0]\<rparr>
     = Inr \<lparr>dtype = Float64, shape = [1, 2], data = [Fin 3, PosInf]\<rparr>"
proof -
  let ?raw = "\<lparr>dtype = UInt W16, shape = [1, 1, 2], data = [6, 8::real]\<rparr>"
  let ?field = "\<lparr>dtype = Float64, shape = [1, 1, 2], data = [2, 0::real]\<rparr>"
  have h: "wf_array ?raw" "wf_array ?field"
    by (simp_all add: wf_array_def)
  have "shape ?field = shape ?raw \<and> 2 \<le> length (shape ?raw) \<and> shape ?raw ! 1 = 1"
    by simp
  then have "flatfield_correct ?raw ?field =
      Inr \<lparr>dtype = Float64, shape = hd (shape ?raw) # drop 2 (shape ?raw),
           data = map2 fdiv (data ?raw) (data ?field)\<rparr>"
    using flatfield_correct_spec [OF h] by blast
  then show ?thesis
    by (simp add: fdiv_def)
qed

text \<open>
  C8, as the specification states it, fails: a field of shape (2, 2) disagrees with the
  shape (1, 1, 2, 2) of the raw stack, and the correction returns the quotient, the field
  being broadcast over the first two axes.
\<close>

theorem flatfield_shape_mismatch_counterexample:
  "shape \<lparr>dtype = Float64, shape = [2, 2], data = [2, 2, 4, 4::real]\<rparr>
     \<noteq> shape \<lparr>dtype = UInt W16, shape = [1, 1, 2, 2], data = [2, 4, 8, 12::real]\<rparr> \<and>
   flatfield_correct \<lparr>dtype = UInt W16, shape = [1, 1, 2, 2], data = [2, 4, 8, 12]\<rparr>
                     \<lparr>dtype = Float64, shape = [2, 2], data = [2, 2, 4, 4]\<rparr>
     = Inr \<lparr>dtype = Float64, shape = [1, 2, 2], data = [Fin 1, Fin 2, Fin 2, Fin 3]\<rparr>"
  by (simp add: flatfield_correct_def elementwise2_def broadcast_shapes_def broadcast_to_def
      pad_shape_def bindE_def squeeze_axis1_def fdiv_def upt_conv_Cons)

subsection \<open>Table reconciliation\<close>

lemma index_of_Some:
  "index_of x xs = Some i \<Longrightarrow> i < length xs \<and> xs ! i = x"
  by (induction xs arbitrary: i) (auto split: if_splits)

lemma index_of_mem: "x \<in> set xs \<Longrightarrow> \<exists>i. index_of x xs = Some i"
  by (induction xs) auto

lemma index_of_None: "index_of x xs = None \<longleftrightarrow> x \<notin> set xs"
  by (induction xs) auto

lemma map_of_update_first:
  "index_of c (map fst cols) = Some i \<Longrightarrow>
     map_of (cols[i := (c, v)]) = (map_of cols)(c \<mapsto> v)"
proof (induction cols arbitrary: i)
  case Nil
  then show ?case by simp
next
  case (Cons p cols)
  show ?case
  proof (cases "c = fst p")
    case True
    with Cons.prems show ?thesis by (cases p) auto
  next
    case False
    with Cons.prems obtain j where j: "index_of c (map fst cols) = Some j" "i = Suc j"
      by auto
    with Cons.IH [OF j(1)] False show ?thesis
      by (cases p) (auto simp: fun_eq_iff)
  qed
qed

lemma key_positions_ok:
  "set on \<subseteq> set names \<Longrightarrow> \<exists>ks. key_positions names on = Some ks"
proof (induction on)
  case Nil
  then show ?case by simp
next
  case (Cons k on)
  then obtain i where "index_of k names = Some i"
    using index_of_mem [of k names] by auto
  with Cons show ?case by auto
qed

lemma key_positions_nth:
  "key_positions names on = Some ks \<Longrightarrow>
     length ks = length on \<and> (\<forall>j < length on. index_of (on ! j) names = Some (ks ! j))"
proof (induction on arbitrary: ks)
  case Nil
  then show ?case by simp
next
  case (Cons k on)
  then obtain i ks' where s: "index_of k names = Some i" "key_positions names on = Some ks'"
      "ks = i # ks'"
    by (auto split: option.splits)
  with Cons.IH [OF s(2)] show ?case
    by (auto simp: nth_Cons split: nat.splits)
qed

lemma key_positions_set:
  assumes "key_positions names on = Some ks"
  shows "i \<in> set ks \<longleftrightarrow> i < length names \<and> names ! i \<in> set on \<and> index_of (names ! i) names = Some i"
proof
  assume "i \<in> set ks"
  then obtain j where j: "j < length ks" "ks ! j = i"
    by (auto simp: in_set_conv_nth)
  with key_positions_nth [OF assms] have io: "index_of (on ! j) names = Some i" "j < length on"
    by auto
  with index_of_Some [OF io(1)] show "i < length names \<and> names ! i \<in> set on \<and> index_of (names ! i) names = Some i"
    by auto
next
  assume a: "i < length names \<and> names ! i \<in> set on \<and> index_of (names ! i) names = Some i"
  then obtain j where j: "j < length on" "on ! j = names ! i"
    by (auto simp: in_set_conv_nth)
  with key_positions_nth [OF assms] a have "ks ! j = i" "j < length ks"
    by auto
  then show "i \<in> set ks"
    by auto
qed

lemma nonkey_length: "length (nonkey ks r) = length (filter (\<lambda>i. i \<notin> set ks) [0..<length r])"
  by (simp add: nonkey_def)

lemma nonkey_set: "set (nonkey ks r) \<subseteq> set r"
  by (auto simp: nonkey_def)

lemma index_of_distinct:
  assumes "distinct xs" "i < length xs"
  shows "index_of (xs ! i) xs = Some i"
proof -
  have "xs ! i \<in> set xs"
    using assms(2) by (rule nth_mem)
  from index_of_mem [OF this] obtain j where j: "index_of (xs ! i) xs = Some j" ..
  have "j < length xs" "xs ! j = xs ! i"
    using index_of_Some [OF j] by simp_all
  then have "j = i"
    using assms by (simp add: nth_eq_iff_index_eq)
  with j show ?thesis by simp
qed

lemma key_positions_set_distinct:
  assumes "key_positions names on = Some ks" "distinct names"
  shows "i \<in> set ks \<longleftrightarrow> i < length names \<and> names ! i \<in> set on"
proof
  assume "i \<in> set ks"
  then show "i < length names \<and> names ! i \<in> set on"
    by (simp add: key_positions_set [OF assms(1)])
next
  assume a: "i < length names \<and> names ! i \<in> set on"
  then have "index_of (names ! i) names = Some i"
    using index_of_distinct [OF assms(2), of i] by simp
  with a show "i \<in> set ks"
    by (simp add: key_positions_set [OF assms(1)])
qed

lemma nonkey_columns:
  assumes "key_positions (map fst cols) on = Some ks" "distinct (map fst cols)"
  shows "fst ` set (nonkey ks cols) = fst ` set cols - set on"
proof (intro set_eqI iffI)
  fix c
  assume "c \<in> fst ` set (nonkey ks cols)"
  then obtain i where i: "i < length cols" "i \<notin> set ks" "c = fst (cols ! i)"
    by (auto simp: nonkey_def)
  have "map fst cols ! i \<notin> set on"
    using key_positions_set_distinct [OF assms, of i] i(1,2) by simp
  then have "c \<notin> set on"
    using i(1,3) by simp
  moreover have "c \<in> fst ` set cols"
    using i(1,3) by simp
  ultimately show "c \<in> fst ` set cols - set on"
    by simp
next
  fix c
  assume "c \<in> fst ` set cols - set on"
  then obtain p where p: "p \<in> set cols" "c = fst p" "c \<notin> set on"
    by auto
  from p(1) obtain i where i: "i < length cols" "cols ! i = p"
    unfolding in_set_conv_nth by auto
  have "i \<notin> set ks"
    using key_positions_set_distinct [OF assms, of i] i p(2,3) by simp
  then have "cols ! i \<in> set (nonkey ks cols)"
    using i(1) by (simp add: nonkey_def)
  then show "c \<in> fst ` set (nonkey ks cols)"
    using i(2) p(2) by (intro image_eqI [where x = "cols ! i"]) simp_all
qed

lemma map_of_index_of:
  "index_of c (map fst cols) = Some i \<Longrightarrow> map_of cols c = Some (snd (cols ! i))"
proof (induction cols arbitrary: i)
  case Nil
  then show ?case by simp
next
  case (Cons p cols)
  show ?case
  proof (cases "c = fst p")
    case True
    with Cons.prems show ?thesis by (cases p) auto
  next
    case False
    with Cons.prems obtain j where j: "index_of c (map fst cols) = Some j" "i = Suc j"
      by auto
    with Cons.IH [OF j(1)] False show ?thesis
      by (cases p) auto
  qed
qed

lemma update_keeps_nulls:
  assumes "None \<notin> set r"
  shows "None \<notin> set (r[i := map_option f (r ! i)])"
proof (cases "i < length r")
  case True
  then have "r ! i \<in> set r"
    by (rule nth_mem)
  with assms have "r ! i \<noteq> None"
    by metis
  then have "map_option f (r ! i) \<noteq> None"
    by simp
  moreover have "set (r[i := map_option f (r ! i)]) \<subseteq> insert (map_option f (r ! i)) (set r)"
    by (rule set_update_subset_insert)
  ultimately show ?thesis
    using assms by auto
next
  case False
  then have "r[i := map_option f (r ! i)] = r"
    by (intro list_update_beyond) simp
  with assms show ?thesis by simp
qed

lemma astype_int_ok:
  assumes "rect t" "no_nulls t" "i < length (columns t)"
  shows "astype_int i t =
     Inr \<lparr>columns = (columns t)[i := (fst (columns t ! i), IntCol)],
          rows = map (\<lambda>r. r[i := map_option trunc_real (r ! i)]) (rows t)\<rparr>"
proof -
  have "r ! i \<noteq> None" if "r \<in> set (rows t)" for r
  proof -
    have "i < length r"
      using assms(1,3) that by (simp add: rect_def)
    then have "r ! i \<in> set r"
      by (rule nth_mem)
    moreover have "None \<notin> set r"
      using assms(2) that by (simp add: no_nulls_def)
    ultimately show ?thesis by metis
  qed
  then have "\<not> list_ex (\<lambda>r. r ! i = None) (rows t)"
    by (simp add: list_ex_iff)
  then show ?thesis
    by (simp add: astype_int_def)
qed

lemma restore_ints_ok:
  assumes "rect df" "no_nulls df"
    and "\<forall>p \<in> set cs. snd p = IntCol \<longrightarrow> fst p \<in> fst ` set (columns df)"
  shows "\<exists>df'. restore_ints cs df = Inr df' \<and>
           map fst (columns df') = map fst (columns df) \<and>
           length (rows df') = length (rows df) \<and> rect df' \<and> no_nulls df' \<and>
           (\<forall>c. col_dtype_of df c = Some IntCol \<longrightarrow> col_dtype_of df' c = Some IntCol) \<and>
           (\<forall>p \<in> set cs. snd p = IntCol \<longrightarrow> col_dtype_of df' (fst p) = Some IntCol)"
  using assms
proof (induction cs arbitrary: df)
  case Nil
  then show ?case by simp
next
  case (Cons p cs)
  obtain c t where p: "p = (c, t)" by (cases p)
  have rest: "\<forall>q \<in> set cs. snd q = IntCol \<longrightarrow> fst q \<in> fst ` set (columns df)"
    using Cons.prems(3) by simp
  show ?case
  proof (cases "t = IntCol")
    case False
    obtain df' where d: "restore_ints cs df = Inr df'"
        "map fst (columns df') = map fst (columns df)"
        "length (rows df') = length (rows df)" "rect df'" "no_nulls df'"
        "\<forall>c. col_dtype_of df c = Some IntCol \<longrightarrow> col_dtype_of df' c = Some IntCol"
        "\<forall>q \<in> set cs. snd q = IntCol \<longrightarrow> col_dtype_of df' (fst q) = Some IntCol"
      using Cons.IH [OF Cons.prems(1,2) rest] by auto
    have "restore_ints (p # cs) df = Inr df'"
      using False d(1) by (simp add: p)
    moreover have "\<forall>q \<in> set (p # cs). snd q = IntCol \<longrightarrow> col_dtype_of df' (fst q) = Some IntCol"
      using False d(7) by (simp add: p)
    ultimately show ?thesis
      using d(2-6) by (intro exI [of _ df']) simp
  next
    case True
    have "c \<in> set (map fst (columns df))"
      using Cons.prems(3) True by (simp add: p)
    from index_of_mem [OF this] obtain i where i: "index_of c (map fst (columns df)) = Some i" ..
    have il: "i < length (columns df)"
      using index_of_Some [OF i] by simp
    have "map fst (columns df) ! i = c"
      using index_of_Some [OF i] by simp
    then have ic: "fst (columns df ! i) = c"
      using il by simp
    have cur: "col_dtype_of df c = Some (snd (columns df ! i))"
      unfolding col_dtype_of_def by (rule map_of_index_of [OF i])
    show ?thesis
    proof (cases "snd (columns df ! i) = IntCol")
      case isint: True
      obtain df' where d: "restore_ints cs df = Inr df'"
          "map fst (columns df') = map fst (columns df)"
          "length (rows df') = length (rows df)" "rect df'" "no_nulls df'"
          "\<forall>c. col_dtype_of df c = Some IntCol \<longrightarrow> col_dtype_of df' c = Some IntCol"
          "\<forall>q \<in> set cs. snd q = IntCol \<longrightarrow> col_dtype_of df' (fst q) = Some IntCol"
        using Cons.IH [OF Cons.prems(1,2) rest] by auto
      have "restore_ints (p # cs) df = Inr df'"
        using True isint i d(1) by (simp add: p)
      moreover have "col_dtype_of df' c = Some IntCol"
        using d(6) cur isint by simp
      then have "\<forall>q \<in> set (p # cs). snd q = IntCol \<longrightarrow> col_dtype_of df' (fst q) = Some IntCol"
        using d(7) by (simp add: p)
      ultimately show ?thesis
        using d(2-6) by (intro exI [of _ df']) simp
    next
      case notint: False
      define t' where "t' = \<lparr>columns = (columns df)[i := (fst (columns df ! i), IntCol)],
          rows = map (\<lambda>r. r[i := map_option trunc_real (r ! i)]) (rows df)\<rparr>"
      have as: "astype_int i df = Inr t'"
        unfolding t'_def by (rule astype_int_ok [OF Cons.prems(1,2) il])
      have names: "map fst (columns t') = map fst (columns df)"
        using il by (simp add: t'_def map_update list_update_same_conv)
      have r': "rect t'"
        using Cons.prems(1) by (simp add: t'_def rect_def)
      have n': "no_nulls t'"
        using Cons.prems(2) by (simp add: t'_def no_nulls_def update_keeps_nulls)
      have m': "map_of (columns t') = (map_of (columns df))(c \<mapsto> IntCol)"
        using map_of_update_first [OF i, of IntCol] by (simp add: t'_def ic)
      have rest': "\<forall>q \<in> set cs. snd q = IntCol \<longrightarrow> fst q \<in> fst ` set (columns t')"
      proof -
        have "fst ` set (columns t') = fst ` set (columns df)"
          using names by (metis list.set_map)
        with rest show ?thesis by simp
      qed
      obtain df' where d: "restore_ints cs t' = Inr df'"
          "map fst (columns df') = map fst (columns t')"
          "length (rows df') = length (rows t')" "rect df'" "no_nulls df'"
          "\<forall>c. col_dtype_of t' c = Some IntCol \<longrightarrow> col_dtype_of df' c = Some IntCol"
          "\<forall>q \<in> set cs. snd q = IntCol \<longrightarrow> col_dtype_of df' (fst q) = Some IntCol"
        using Cons.IH [OF r' n' rest'] by auto
      have "restore_ints (p # cs) df = Inr df'"
        using True notint i as d(1) by (simp add: p bindE_def)
      moreover have "col_dtype_of t' c = Some IntCol"
        by (simp add: col_dtype_of_def m')
      then have "col_dtype_of df' c = Some IntCol"
        using d(6) by simp
      then have "\<forall>q \<in> set (p # cs). snd q = IntCol \<longrightarrow> col_dtype_of df' (fst q) = Some IntCol"
        using d(7) by (simp add: p)
      moreover have "\<forall>c'. col_dtype_of df c' = Some IntCol \<longrightarrow> col_dtype_of df' c' = Some IntCol"
      proof (intro allI impI)
        fix c'
        assume "col_dtype_of df c' = Some IntCol"
        then have "col_dtype_of t' c' = Some IntCol"
          by (simp add: col_dtype_of_def m')
        then show "col_dtype_of df' c' = Some IntCol"
          using d(6) by simp
      qed
      moreover have "length (rows df') = length (rows df)"
        using d(3) by (simp add: t'_def)
      ultimately show ?thesis
        using d(2,4,5) names by (intro exI [of _ df']) simp
    qed
  qed
qed

lemma wf_table_rect: "wf_table t \<Longrightarrow> rect t"
  by (simp add: wf_table_def rect_def)

lemma value_columns_set:
  assumes "key_positions (map fst (columns t)) on = Some ks" "distinct (map fst (columns t))"
  shows "set (value_columns t on) = fst ` set (nonkey ks (columns t))"
  using nonkey_columns [OF assms] by (auto simp: value_columns_def)

lemma nonkey_length_eq: "length r = length s \<Longrightarrow> length (nonkey ks r) = length (nonkey ks s)"
  by (simp add: nonkey_def)

text \<open>The merged table before \<open>dropna\<close>, when no value column is shared.\<close>

lemma pd_merge_outer_result:
  assumes k1: "key_positions (map fst (columns df1)) on = Some k1"
    and k2: "key_positions (map fst (columns df2)) on = Some k2"
    and wf: "wf_table df1" "wf_table df2"
    and dj: "set (value_columns df1 on) \<inter> set (value_columns df2 on) = {}"
    and ne: "on \<noteq> []"
  shows "\<exists>m. pd_merge_outer df1 df2 on = Inr m \<and>
           map fst (columns m) = map fst (columns df1) @ map fst (nonkey k2 (columns df2)) \<and>
           rect m \<and>
           rows m =
             concat (map (\<lambda>l. map (\<lambda>r. l @ nonkey k2 r)
                                  (filter (\<lambda>r. key_of k2 r = key_of k1 l) (rows df2)))
                        (rows df1))
             @ map (\<lambda>l. l @ replicate (length (nonkey k2 (columns df2))) None)
                 (filter (\<lambda>l. key_of k1 l \<notin> key_of k2 ` set (rows df2)) (rows df1))
             @ map (right_only_row k1 k2 (length (columns df1)))
                 (filter (\<lambda>r. key_of k2 r \<notin> key_of k1 ` set (rows df1)) (rows df2))"
proof -
  have d1: "distinct (map fst (columns df1))" and d2: "distinct (map fst (columns df2))"
    using wf by (simp_all add: wf_table_def)
  have r1: "rect df1" and r2: "rect df2"
    using wf by (simp_all add: wf_table_rect)
  let ?rest1 = "nonkey k1 (columns df1)"
  let ?rest2 = "nonkey k2 (columns df2)"
  have v1: "fst ` set ?rest1 = fst ` set (columns df1) - set on"
    by (rule nonkey_columns [OF k1 d1])
  have v2: "fst ` set ?rest2 = fst ` set (columns df2) - set on"
    by (rule nonkey_columns [OF k2 d2])
  have dj': "fst ` set ?rest1 \<inter> fst ` set ?rest2 = {}"
    using dj value_columns_set [OF k1 d1] value_columns_set [OF k2 d2] by simp
  obtain m where m: "pd_merge_outer df1 df2 on = Inr m"
    by (simp add: pd_merge_outer_def k1 k2 ne Let_def)
  have cols: "map fst (columns m) = map fst (columns df1) @ map fst ?rest2"
  proof -
    have a: "fst (case p of (c, t) \<Rightarrow>
          if c \<in> set on
          then (c, if t = IntCol \<and> col_dtype_of df2 c = Some IntCol then IntCol else FloatCol)
          else (if c \<in> fst ` set ?rest2 then c @ ''_x'' else c, if X then FloatCol else t))
        = fst p" if "p \<in> set (columns df1)" for p X
    proof (cases p)
      case (Pair c t)
      show ?thesis
      proof (cases "c \<in> set on")
        case True
        then show ?thesis by (simp add: Pair)
      next
        case False
        then have "c \<in> fst ` set ?rest1"
          using that Pair v1 by force
        then have "c \<notin> fst ` set ?rest2"
          using dj' by blast
        with False show ?thesis by (simp add: Pair)
      qed
    qed
    have b: "fst (case p of (c, t) \<Rightarrow>
          (if c \<in> fst ` set ?rest1 then c @ ''_y'' else c, if Y then FloatCol else t))
        = fst p" if "p \<in> set ?rest2" for p Y
    proof (cases p)
      case (Pair c t)
      then have "c \<in> fst ` set ?rest2"
        using that by force
      then have "c \<notin> fst ` set ?rest1"
        using dj' by blast
      then show ?thesis by (simp add: Pair)
    qed
    show ?thesis
      using m a b by (auto simp: pd_merge_outer_def k1 k2 ne Let_def)
  qed
  have rws: "rows m =
      concat (map (\<lambda>l. map (\<lambda>r. l @ nonkey k2 r)
                           (filter (\<lambda>r. key_of k2 r = key_of k1 l) (rows df2)))
                 (rows df1))
      @ map (\<lambda>l. l @ replicate (length ?rest2) None)
          (filter (\<lambda>l. key_of k1 l \<notin> key_of k2 ` set (rows df2)) (rows df1))
      @ map (right_only_row k1 k2 (length (columns df1)))
          (filter (\<lambda>r. key_of k2 r \<notin> key_of k1 ` set (rows df1)) (rows df2))"
    using m by (auto simp: pd_merge_outer_def k1 k2 ne Let_def)
  have len: "length (columns m) = length (columns df1) + length ?rest2"
    using cols by (metis length_append length_map)
  have nk: "length (nonkey k2 r) = length ?rest2" if "r \<in> set (rows df2)" for r
    using r2 that by (intro nonkey_length_eq) (simp add: rect_def)
  have l1: "length l = length (columns df1)" if "l \<in> set (rows df1)" for l
    using r1 that by (simp add: rect_def)
  have "rect m"
    unfolding rect_def rws len
    by (auto simp: nk l1 right_only_row_def)
  with m cols rws show ?thesis by blast
qed

lemma key_positions_subset:
  assumes "key_positions names on = Some ks"
  shows "set on \<subseteq> set names"
proof
  fix c
  assume "c \<in> set on"
  then obtain j where j: "j < length on" "on ! j = c"
    unfolding in_set_conv_nth by auto
  have "index_of (on ! j) names = Some (ks ! j)"
    using key_positions_nth [OF assms] j(1) by simp
  then have "index_of c names \<noteq> None"
    using j(2) by simp
  then show "c \<in> set names"
    by (simp add: index_of_None)
qed

lemma dropna_props:
  "columns (dropna t) = columns t" "rows (dropna t) = filter (\<lambda>r. None \<notin> set r) (rows t)"
  "no_nulls (dropna t)" "rect t \<Longrightarrow> rect (dropna t)"
  by (simp_all add: dropna_def no_nulls_def rect_def)

text \<open>
  The whole of \<open>_outer_merge\<close> on two well-formed tables that have the join columns
  and share no value column: it returns the rows of the merge that hold no missing cell,
  and every column that was an integer column in an input is one in the result.
\<close>

lemma outer_merge_returns:
  assumes k1: "key_positions (map fst (columns df1)) on = Some k1"
    and k2: "key_positions (map fst (columns df2)) on = Some k2"
    and wf: "wf_table df1" "wf_table df2"
    and dj: "set (value_columns df1 on) \<inter> set (value_columns df2 on) = {}"
    and ne: "on \<noteq> []"
    and m: "pd_merge_outer df1 df2 on = Inr m"
  shows "\<exists>df. outer_merge df1 df2 on = Inr df \<and>
           length (rows df) = length (filter (\<lambda>r. None \<notin> set r) (rows m)) \<and>
           (\<forall>c. col_dtype_of df1 c = Some IntCol \<or> col_dtype_of df2 c = Some IntCol
                 \<longrightarrow> col_dtype_of df c = Some IntCol)"
proof -
  have d2: "distinct (map fst (columns df2))"
    using wf by (simp add: wf_table_def)
  obtain m' where m': "pd_merge_outer df1 df2 on = Inr m'"
      "map fst (columns m') = map fst (columns df1) @ map fst (nonkey k2 (columns df2))"
      "rect m'"
    using pd_merge_outer_result [OF k1 k2 wf dj ne] by blast
  have mm: "m' = m"
    using m m'(1) by simp
  have names: "set (map fst (columns m)) = set (map fst (columns df1)) \<union> fst ` set (nonkey k2 (columns df2))"
    using m'(2) mm by simp
  have n1: "\<forall>p \<in> set (columns df1). snd p = IntCol \<longrightarrow> fst p \<in> fst ` set (columns (dropna m))"
    using names by (simp add: dropna_props)
  have sub: "set on \<subseteq> set (map fst (columns df1))"
    by (rule key_positions_subset [OF k1])
  have v2: "fst ` set (nonkey k2 (columns df2)) = fst ` set (columns df2) - set on"
    by (rule nonkey_columns [OF k2 d2])
  have in2: "fst p \<in> set (map fst (columns m))" if "p \<in> set (columns df2)" for p
  proof (cases "fst p \<in> set on")
    case True
    with sub names show ?thesis by blast
  next
    case False
    with that have "fst p \<in> fst ` set (columns df2) - set on"
      by simp
    with v2 names show ?thesis by blast
  qed
  obtain da where da: "restore_ints (columns df1) (dropna m) = Inr da"
      "map fst (columns da) = map fst (columns (dropna m))"
      "length (rows da) = length (rows (dropna m))" "rect da" "no_nulls da"
      "\<forall>p \<in> set (columns df1). snd p = IntCol \<longrightarrow> col_dtype_of da (fst p) = Some IntCol"
    using restore_ints_ok [OF dropna_props(4) dropna_props(3) n1] m'(3) mm by blast
  have n2: "\<forall>p \<in> set (columns df2). snd p = IntCol \<longrightarrow> fst p \<in> fst ` set (columns da)"
  proof -
    have "fst ` set (columns da) = set (map fst (columns m))"
      using da(2) by (metis dropna_props(1) list.set_map)
    with in2 show ?thesis by simp
  qed
  obtain db where db: "restore_ints (columns df2) da = Inr db"
      "length (rows db) = length (rows da)"
      "\<forall>c. col_dtype_of da c = Some IntCol \<longrightarrow> col_dtype_of db c = Some IntCol"
      "\<forall>p \<in> set (columns df2). snd p = IntCol \<longrightarrow> col_dtype_of db (fst p) = Some IntCol"
    using restore_ints_ok [OF da(4) da(5) n2] by blast
  have res: "outer_merge df1 df2 on = Inr db"
    by (simp add: outer_merge_def m bindE_def da(1) db(1))
  have ints: "col_dtype_of db c = Some IntCol"
    if "col_dtype_of df1 c = Some IntCol \<or> col_dtype_of df2 c = Some IntCol" for c
    using that
  proof
    assume "col_dtype_of df1 c = Some IntCol"
    then have "(c, IntCol) \<in> set (columns df1)"
      unfolding col_dtype_of_def by (rule map_of_SomeD)
    with da(6) have "col_dtype_of da c = Some IntCol"
      by force
    with db(3) show ?thesis by simp
  next
    assume "col_dtype_of df2 c = Some IntCol"
    then have "(c, IntCol) \<in> set (columns df2)"
      unfolding col_dtype_of_def by (rule map_of_SomeD)
    with db(4) show ?thesis by force
  qed
  have "length (rows db) = length (filter (\<lambda>r. None \<notin> set r) (rows m))"
    using db(2) da(3) by (simp add: dropna_props)
  with res ints show ?thesis by blast
qed

lemma table_keys_eq:
  "key_positions (map fst (columns t)) on = Some ks \<Longrightarrow> table_keys t on = map (key_of ks) (rows t)"
  by (simp add: table_keys_def)

lemma filter_unique:
  assumes "distinct (map f xs)" "y \<in> f ` set xs"
  shows "length (filter (\<lambda>x. f x = y) xs) = 1"
  using assms
proof (induction xs)
  case Nil
  then show ?case by simp
next
  case (Cons x xs)
  show ?case
  proof (cases "f x = y")
    case True
    then have "y \<notin> f ` set xs"
      using Cons.prems(1) by auto
    then have "filter (\<lambda>x. f x = y) xs = []"
      by (auto simp: filter_empty_conv)
    with True show ?thesis by simp
  next
    case False
    with Cons show ?thesis by auto
  qed
qed

lemma length_concat_ones:
  assumes "\<And>x. x \<in> set xs \<Longrightarrow> length (g x) = 1"
  shows "length (concat (map g xs)) = length xs"
  using assms by (induction xs) auto

lemma merge_rows_disjoint:
  assumes k1: "key_positions (map fst (columns df1)) on = Some k1"
    and k2: "key_positions (map fst (columns df2)) on = Some k2"
    and wf: "wf_table df1" "wf_table df2"
    and c: "c \<in> set on" "column_values df1 c \<inter> column_values df2 c = {}"
    and v: "value_columns df1 on \<noteq> []" "value_columns df2 on \<noteq> []"
  shows "filter (\<lambda>r. None \<notin> set r)
     (concat (map (\<lambda>l. map (\<lambda>r. l @ nonkey k2 r)
                          (filter (\<lambda>r. key_of k2 r = key_of k1 l) (rows df2)))
                (rows df1))
      @ map (\<lambda>l. l @ replicate (length (nonkey k2 (columns df2))) None)
          (filter (\<lambda>l. key_of k1 l \<notin> key_of k2 ` set (rows df2)) (rows df1))
      @ map (right_only_row k1 k2 (length (columns df1)))
          (filter (\<lambda>r. key_of k2 r \<notin> key_of k1 ` set (rows df1)) (rows df2))) = []"
proof -
  have d1: "distinct (map fst (columns df1))" and d2: "distinct (map fst (columns df2))"
    using wf by (simp_all add: wf_table_def)
  obtain j where j: "j < length on" "on ! j = c"
    using c(1) unfolding in_set_conv_nth by auto
  have i1: "index_of c (map fst (columns df1)) = Some (k1 ! j)" and l1: "length k1 = length on"
    using key_positions_nth [OF k1] j by auto
  have i2: "index_of c (map fst (columns df2)) = Some (k2 ! j)" and l2: "length k2 = length on"
    using key_positions_nth [OF k2] j by auto
  have differ: "key_of k2 r \<noteq> key_of k1 l" if "l \<in> set (rows df1)" "r \<in> set (rows df2)" for l r
  proof
    assume eq: "key_of k2 r = key_of k1 l"
    have "key_of k2 r ! j = r ! (k2 ! j)" "key_of k1 l ! j = l ! (k1 ! j)"
      using j(1) l1 l2 by (simp_all add: key_of_def)
    with eq have same: "r ! (k2 ! j) = l ! (k1 ! j)"
      by simp
    have "l ! (k1 ! j) \<in> column_values df1 c"
      using that(1) by (simp add: column_values_def i1)
    moreover have "r ! (k2 ! j) \<in> column_values df2 c"
      using that(2) by (simp add: column_values_def i2)
    ultimately show False
      using c(2) same by auto
  qed
  have matched: "concat (map (\<lambda>l. map (\<lambda>r. l @ nonkey k2 r)
                          (filter (\<lambda>r. key_of k2 r = key_of k1 l) (rows df2)))
                (rows df1)) = []"
    using differ by (auto simp: filter_empty_conv)
  have "set (value_columns df2 on) \<noteq> {}"
    using v(2) by simp
  then have "nonkey k2 (columns df2) \<noteq> []"
    using value_columns_set [OF k2 d2] by auto
  then have left: "None \<in> set (l @ replicate (length (nonkey k2 (columns df2))) None)" for l :: "cell list"
    by simp
  have "set (value_columns df1 on) \<noteq> {}"
    using v(1) by simp
  then have "nonkey k1 (columns df1) \<noteq> []"
    using value_columns_set [OF k1 d1] by auto
  then obtain i where i: "i < length (columns df1)" "i \<notin> set k1"
    by (auto simp: nonkey_def filter_empty_conv)
  then have "index_of i k1 = None"
    by (simp add: index_of_None)
  then have "None \<in> (\<lambda>i. case index_of i k1 of None \<Rightarrow> None | Some j \<Rightarrow> r ! (k2 ! j))
      ` {0..<length (columns df1)}" for r :: "cell list"
    using i(1) by (intro image_eqI [where x = i]) simp_all
  then have right: "None \<in> set (right_only_row k1 k2 (length (columns df1)) r)" for r
    by (simp add: right_only_row_def)
  show ?thesis
    unfolding matched using left right by (auto simp: filter_empty_conv)
qed

lemma merge_rows_overlap:
  assumes k1: "key_positions (map fst (columns df1)) on = Some k1"
    and k2: "key_positions (map fst (columns df2)) on = Some k2"
    and dk: "distinct (table_keys df1 on)" "distinct (table_keys df2 on)"
    and sk: "set (table_keys df1 on) = set (table_keys df2 on)"
    and nn: "no_nulls df1" "no_nulls df2"
  shows "length (filter (\<lambda>r. None \<notin> set r)
     (concat (map (\<lambda>l. map (\<lambda>r. l @ nonkey k2 r)
                          (filter (\<lambda>r. key_of k2 r = key_of k1 l) (rows df2)))
                (rows df1))
      @ map (\<lambda>l. l @ replicate (length (nonkey k2 (columns df2))) None)
          (filter (\<lambda>l. key_of k1 l \<notin> key_of k2 ` set (rows df2)) (rows df1))
      @ map (right_only_row k1 k2 (length (columns df1)))
          (filter (\<lambda>r. key_of k2 r \<notin> key_of k1 ` set (rows df1)) (rows df2))))
     = length (rows df1) \<and> length (rows df1) = length (rows df2)"
proof -
  have t1: "table_keys df1 on = map (key_of k1) (rows df1)"
    by (rule table_keys_eq [OF k1])
  have t2: "table_keys df2 on = map (key_of k2) (rows df2)"
    by (rule table_keys_eq [OF k2])
  have s: "key_of k1 ` set (rows df1) = key_of k2 ` set (rows df2)"
    using sk by (simp add: t1 t2)
  have lo: "filter (\<lambda>l. key_of k1 l \<notin> key_of k2 ` set (rows df2)) (rows df1) = []"
    using s by (auto simp: filter_empty_conv)
  have ro: "filter (\<lambda>r. key_of k2 r \<notin> key_of k1 ` set (rows df1)) (rows df2) = []"
    using s by (auto simp: filter_empty_conv)
  let ?g = "\<lambda>l. map (\<lambda>r. l @ nonkey k2 r) (filter (\<lambda>r. key_of k2 r = key_of k1 l) (rows df2))"
  have one: "length (?g l) = 1" if "l \<in> set (rows df1)" for l
  proof -
    have "key_of k1 l \<in> key_of k2 ` set (rows df2)"
      using that s by blast
    moreover have "distinct (map (key_of k2) (rows df2))"
      using dk(2) by (simp add: t2)
    ultimately have "length (filter (\<lambda>r. key_of k2 r = key_of k1 l) (rows df2)) = 1"
      by (intro filter_unique)
    then show ?thesis by simp
  qed
  have full: "None \<notin> set r" if "r \<in> set (concat (map ?g (rows df1)))" for r
  proof -
    from that obtain l where l: "l \<in> set (rows df1)" "r \<in> set (?g l)"
      by auto
    from l(2) obtain r2 where "r2 \<in> set (rows df2)" "r = l @ nonkey k2 r2"
      by auto
    with l(1) have lr: "l \<in> set (rows df1)" "r2 \<in> set (rows df2)" "r = l @ nonkey k2 r2"
      by simp_all
    have "None \<notin> set l" "None \<notin> set r2"
      using lr(1,2) nn by (simp_all add: no_nulls_def)
    moreover have "set (nonkey k2 r2) \<subseteq> set r2"
      by (rule nonkey_set)
    ultimately show ?thesis
      using lr(3) by auto
  qed
  have "filter (\<lambda>r. None \<notin> set r) (concat (map ?g (rows df1))) = concat (map ?g (rows df1))"
    using full by (intro filter_True) blast
  moreover have "length (concat (map ?g (rows df1))) = length (rows df1)"
    using one by (rule length_concat_ones)
  moreover have "length (rows df1) = length (rows df2)"
  proof -
    have "length (rows df1) = card (set (table_keys df1 on))"
      using distinct_card [OF dk(1)] by (simp add: t1)
    also have "\<dots> = card (set (table_keys df2 on))"
      by (simp add: sk)
    also have "\<dots> = length (rows df2)"
      using distinct_card [OF dk(2)] by (simp add: t2)
    finally show ?thesis .
  qed
  ultimately show ?thesis
    by (simp add: lo ro)
qed

text \<open>
  C1, as the code has it. Two well-formed tables that both have the join columns (at
  least one) and share no other column name are merged without error. (a) If the values
  of one join column (the labels) are disjoint and each table has a column besides the
  join columns, the result has no rows. (b) If every key occurs once in each table, the two key sets
  are equal and no cell of the inputs is missing, the result has as many rows as each
  input, and every column that is an integer column in an input is an integer column in
  the result.
\<close>

theorem outer_merge_spec:
  assumes wf: "wf_table df1" "wf_table df2"
    and ne: "on \<noteq> []"
    and keys: "set on \<subseteq> fst ` set (columns df1)" "set on \<subseteq> fst ` set (columns df2)"
    and dj: "set (value_columns df1 on) \<inter> set (value_columns df2 on) = {}"
  shows "((\<exists>c \<in> set on. column_values df1 c \<inter> column_values df2 c = {}) \<and>
            value_columns df1 on \<noteq> [] \<and> value_columns df2 on \<noteq> [] \<longrightarrow>
            (\<exists>df. outer_merge df1 df2 on = Inr df \<and> rows df = [])) \<and>
         (distinct (table_keys df1 on) \<and> distinct (table_keys df2 on) \<and>
            set (table_keys df1 on) = set (table_keys df2 on) \<and>
            no_nulls df1 \<and> no_nulls df2 \<longrightarrow>
            (\<exists>df. outer_merge df1 df2 on = Inr df \<and>
                  length (rows df) = length (rows df1) \<and>
                  length (rows df) = length (rows df2) \<and>
                  (\<forall>c. col_dtype_of df1 c = Some IntCol \<or> col_dtype_of df2 c = Some IntCol
                        \<longrightarrow> col_dtype_of df c = Some IntCol)))"
proof -
  obtain k1 where k1: "key_positions (map fst (columns df1)) on = Some k1"
    using key_positions_ok [of on "map fst (columns df1)"] keys(1) by auto
  obtain k2 where k2: "key_positions (map fst (columns df2)) on = Some k2"
    using key_positions_ok [of on "map fst (columns df2)"] keys(2) by auto
  obtain m where m: "pd_merge_outer df1 df2 on = Inr m"
      "rows m =
         concat (map (\<lambda>l. map (\<lambda>r. l @ nonkey k2 r)
                              (filter (\<lambda>r. key_of k2 r = key_of k1 l) (rows df2)))
                    (rows df1))
         @ map (\<lambda>l. l @ replicate (length (nonkey k2 (columns df2))) None)
             (filter (\<lambda>l. key_of k1 l \<notin> key_of k2 ` set (rows df2)) (rows df1))
         @ map (right_only_row k1 k2 (length (columns df1)))
             (filter (\<lambda>r. key_of k2 r \<notin> key_of k1 ` set (rows df1)) (rows df2))"
    using pd_merge_outer_result [OF k1 k2 wf dj ne] by blast
  obtain df where df: "outer_merge df1 df2 on = Inr df"
      "length (rows df) = length (filter (\<lambda>r. None \<notin> set r) (rows m))"
      "\<forall>c. col_dtype_of df1 c = Some IntCol \<or> col_dtype_of df2 c = Some IntCol
           \<longrightarrow> col_dtype_of df c = Some IntCol"
    using outer_merge_returns [OF k1 k2 wf dj ne m(1)] by blast
  have a: "\<exists>df. outer_merge df1 df2 on = Inr df \<and> rows df = []"
    if h: "(\<exists>c \<in> set on. column_values df1 c \<inter> column_values df2 c = {}) \<and>
           value_columns df1 on \<noteq> [] \<and> value_columns df2 on \<noteq> []"
  proof -
    from h obtain c where c: "c \<in> set on" "column_values df1 c \<inter> column_values df2 c = {}"
      by blast
    have "filter (\<lambda>r. None \<notin> set r) (rows m) = []"
      unfolding m(2) using h by (intro merge_rows_disjoint [OF k1 k2 wf c]) simp_all
    with df(1,2) show ?thesis by simp
  qed
  have b: "\<exists>df. outer_merge df1 df2 on = Inr df \<and>
           length (rows df) = length (rows df1) \<and> length (rows df) = length (rows df2) \<and>
           (\<forall>c. col_dtype_of df1 c = Some IntCol \<or> col_dtype_of df2 c = Some IntCol
                 \<longrightarrow> col_dtype_of df c = Some IntCol)"
    if h: "distinct (table_keys df1 on) \<and> distinct (table_keys df2 on) \<and>
           set (table_keys df1 on) = set (table_keys df2 on) \<and> no_nulls df1 \<and> no_nulls df2"
  proof -
    have "length (filter (\<lambda>r. None \<notin> set r) (rows m)) = length (rows df1)
        \<and> length (rows df1) = length (rows df2)"
      unfolding m(2) using h by (intro merge_rows_overlap [OF k1 k2]) simp_all
    with df show ?thesis by auto
  qed
  from a b show ?thesis by blast
qed

lemma example_tables_wf:
  "wf_table cell_table" "wf_table cyto_table" "wf_table other_cyto_table"
  by (simp_all add: wf_table_def cell_table_def cyto_table_def other_cyto_table_def
      nth_Cons' less_Suc_eq numeral_3_eq_3)

theorem outer_merge_spec_witness:
  "(\<exists>df. outer_merge cell_table other_cyto_table [''label'', ''timepoint''] = Inr df \<and>
         rows df = []) \<and>
   (\<exists>df. outer_merge cell_table cyto_table [''label'', ''timepoint''] = Inr df \<and>
         length (rows df) = 2 \<and>
         col_dtype_of df ''area_cell'' = Some IntCol \<and>
         col_dtype_of df ''area_cyto'' = Some IntCol)"
proof -
  let ?on = "[''label'', ''timepoint'']"
  have ne: "?on \<noteq> []"
    by simp
  have k1: "set ?on \<subseteq> fst ` set (columns cell_table)"
    by (simp add: cell_table_def)
  have k2: "set ?on \<subseteq> fst ` set (columns cyto_table)"
    "set ?on \<subseteq> fst ` set (columns other_cyto_table)"
    by (simp_all add: cyto_table_def other_cyto_table_def)
  have dj: "set (value_columns cell_table ?on) \<inter> set (value_columns cyto_table ?on) = {}"
    "set (value_columns cell_table ?on) \<inter> set (value_columns other_cyto_table ?on) = {}"
    by (simp_all add: value_columns_def cell_table_def cyto_table_def other_cyto_table_def)
  have l: "\<exists>c \<in> set ?on. column_values cell_table c \<inter> column_values other_cyto_table c = {}"
    by (intro bexI [of _ "''label''"])
      (simp_all add: column_values_def cell_table_def other_cyto_table_def)
  have v: "value_columns cell_table ?on \<noteq> []" "value_columns other_cyto_table ?on \<noteq> []"
    by (simp_all add: value_columns_def cell_table_def other_cyto_table_def)
  have first: "\<exists>df. outer_merge cell_table other_cyto_table ?on = Inr df \<and> rows df = []"
    using outer_merge_spec [OF example_tables_wf(1) example_tables_wf(3) ne k1 k2(2) dj(2)] l v
    by blast
  have d: "distinct (table_keys cell_table ?on)" "distinct (table_keys cyto_table ?on)"
    "set (table_keys cell_table ?on) = set (table_keys cyto_table ?on)"
    by (simp_all add: table_keys_def key_of_def cell_table_def cyto_table_def)
  have n: "no_nulls cell_table" "no_nulls cyto_table"
    by (simp_all add: no_nulls_def cell_table_def cyto_table_def)
  obtain df where df: "outer_merge cell_table cyto_table ?on = Inr df"
      "length (rows df) = length (rows cell_table)"
      "\<forall>c. col_dtype_of cell_table c = Some IntCol \<or> col_dtype_of cyto_table c = Some IntCol
           \<longrightarrow> col_dtype_of df c = Some IntCol"
    using outer_merge_spec [OF example_tables_wf(1) example_tables_wf(2) ne k1 k2(1) dj(1)] d n
    by blast
  have "col_dtype_of cell_table ''area_cell'' = Some IntCol"
    "col_dtype_of cyto_table ''area_cyto'' = Some IntCol"
    by (simp_all add: col_dtype_of_def cell_table_def cyto_table_def)
  with df(3) have "col_dtype_of df ''area_cell'' = Some IntCol"
    "col_dtype_of df ''area_cyto'' = Some IntCol"
    by simp_all
  moreover have "length (rows df) = 2"
    using df(2) by (simp add: cell_table_def)
  ultimately show ?thesis
    using first df(1) by blast
qed

text \<open>
  C1, as the specification states it, fails when an input holds a missing value: the
  two tables below have the same keys, one row per key, and the merge drops the row
  whose intensity is missing, so one row is left of two.
\<close>

theorem outer_merge_null_counterexample:
  "table_keys nan_cell_table [''label'', ''timepoint'']
     = table_keys cyto_table [''label'', ''timepoint''] \<and>
   distinct (table_keys cyto_table [''label'', ''timepoint'']) \<and>
   length (rows nan_cell_table) = 2 \<and> length (rows cyto_table) = 2 \<and>
   map_sum id (\<lambda>df. length (rows df))
     (outer_merge nan_cell_table cyto_table [''label'', ''timepoint'']) = Inr 1"
  by (simp add: table_keys_def key_of_def nan_cell_table_def cyto_table_def outer_merge_def
      pd_merge_outer_def Let_def nonkey_def right_only_row_def dropna_def bindE_def
      col_dtype_of_def astype_int_def upt_conv_Cons)

text \<open>Without a join column the merge raises, and so does \<open>_outer_merge\<close>.\<close>

lemma outer_merge_no_keys: "outer_merge df1 df2 [] = Inl IndexError"
  by (simp add: outer_merge_def pd_merge_outer_def bindE_def)

end
